theory Spec2Isabelle
  imports Main "HOL-Library.Sublist"
begin

section \<open>Python values and primitives used by github\_repo\_scraper.py\<close>

text \<open>
  Every value the scraper handles is JSON data: what \<open>response.json()\<close> and
  \<open>json.load\<close> return, and the dictionaries the scraper builds from it. A Python \<open>dict\<close>
  is an association list in insertion order with distinct keys, \<open>None\<close> is \<open>JNull\<close>.
  Floating-point numbers do not occur in the data the claims are about and are left out.
\<close>

datatype json =
    JNull
  | JBool bool
  | JInt int
  | JStr string
  | JList "json list"
  | JObj "(string \<times> json) list"

text \<open>The exception classes that can be raised in the modelled code.\<close>

datatype exn =
    KeyError
  | TypeError
  | AttributeError
  | ValueError
  | IOError
  | JSONDecodeError
  | UnicodeDecodeError
  | RecursionError

text \<open>Sequencing of computations that may raise: the first exception wins.\<close>

definition and_then :: "'e + 'a \<Rightarrow> ('a \<Rightarrow> 'e + 'b) \<Rightarrow> 'e + 'b" where
  "and_then m f = (case m of Inl e \<Rightarrow> Inl e | Inr v \<Rightarrow> f v)"

fun sequence :: "('e + 'a) list \<Rightarrow> 'e + 'a list" where
  "sequence [] = Inr []"
| "sequence (m # ms) = and_then m (\<lambda>v. and_then (sequence ms) (\<lambda>vs. Inr (v # vs)))"

text \<open>
  A computation that may also fail to return (the pagination loops): \<open>None\<close> means the
  loop runs forever, \<open>Some (Inl e)\<close> that \<open>e\<close> is raised.
\<close>

definition seq :: "('e + 'a) option \<Rightarrow> ('a \<Rightarrow> ('e + 'b) option) \<Rightarrow> ('e + 'b) option" where
  "seq m f = (case m of None \<Rightarrow> None | Some (Inl e) \<Rightarrow> Some (Inl e) | Some (Inr v) \<Rightarrow> f v)"

text \<open>Truth value of an object, as tested by \<open>if x\<close> and \<open>not x\<close>.\<close>

fun truthy :: "json \<Rightarrow> bool" where
  "truthy JNull = False"
| "truthy (JBool b) = b"
| "truthy (JInt i) = (i \<noteq> 0)"
| "truthy (JStr s) = (s \<noteq> [])"
| "truthy (JList xs) = (xs \<noteq> [])"
| "truthy (JObj kvs) = (kvs \<noteq> [])"

text \<open>\<open>len(x)\<close>: defined on strings, lists and dicts, a TypeError otherwise.\<close>

fun py_len :: "json \<Rightarrow> exn + nat" where
  "py_len (JStr s) = Inr (length s)"
| "py_len (JList xs) = Inr (length xs)"
| "py_len (JObj kvs) = Inr (length kvs)"
| "py_len _ = Inl TypeError"

text \<open>
  Iteration (\<open>for e in x\<close>, \<open>list.extend(x)\<close>): a list yields its elements, a dict its
  keys, a string its characters; anything else is not iterable.
\<close>

fun py_iter :: "json \<Rightarrow> exn + json list" where
  "py_iter (JList xs) = Inr xs"
| "py_iter (JObj kvs) = Inr (map (\<lambda>kv. JStr (fst kv)) kvs)"
| "py_iter (JStr s) = Inr (map (\<lambda>c. JStr [c]) s)"
| "py_iter _ = Inl TypeError"

text \<open>
  \<open>key in x\<close> for a string \<open>key\<close>: key membership in a dict, element membership in a
  list, substring test in a string, a TypeError otherwise.
\<close>

fun py_contains :: "string \<Rightarrow> json \<Rightarrow> exn + bool" where
  "py_contains key (JObj kvs) = Inr (key \<in> set (map fst kvs))"
| "py_contains key (JList xs) = Inr (JStr key \<in> set xs)"
| "py_contains key (JStr s) = Inr (sublist key s)"
| "py_contains key _ = Inl TypeError"

text \<open>
  \<open>x[key]\<close> for a string \<open>key\<close>: the value or a KeyError on a dict; strings and lists
  take integer indices only and the other types are not subscriptable (TypeError).
\<close>

fun py_getitem :: "json \<Rightarrow> string \<Rightarrow> exn + json" where
  "py_getitem (JObj kvs) key = (case map_of kvs key of None \<Rightarrow> Inl KeyError | Some v \<Rightarrow> Inr v)"
| "py_getitem _ key = Inl TypeError"

text \<open>\<open>x.get(key, default)\<close>: only a dict has the method.\<close>

fun py_get :: "json \<Rightarrow> string \<Rightarrow> json \<Rightarrow> exn + json" where
  "py_get (JObj kvs) key dflt = (case map_of kvs key of None \<Rightarrow> Inr dflt | Some v \<Rightarrow> Inr v)"
| "py_get _ key dflt = Inl AttributeError"

text \<open>
  \<open>x[:10]\<close>: the first ten characters of a string or elements of a list. A dict raises
  (TypeError before Python 3.12, where a slice is unhashable, KeyError from 3.12 on; the
  model takes the former), the remaining types are not subscriptable.
\<close>

fun py_slice10 :: "json \<Rightarrow> exn + json" where
  "py_slice10 (JStr s) = Inr (JStr (take 10 s))"
| "py_slice10 (JList xs) = Inr (JList (take 10 xs))"
| "py_slice10 _ = Inl TypeError"

text \<open>
  \<open>d[key] = v\<close> on a dict: an existing key keeps its position, a new key goes last.
\<close>

fun dict_set :: "('k \<times> 'v) list \<Rightarrow> 'k \<Rightarrow> 'v \<Rightarrow> ('k \<times> 'v) list" where
  "dict_set [] k v = [(k, v)]"
| "dict_set ((k', v') # kvs) k v = (if k' = k then (k, v) # kvs else (k', v') # dict_set kvs k v)"

text \<open>\<open>dict(pairs)\<close>: later pairs overwrite earlier ones with the same key.\<close>

definition dict_of_pairs :: "('k \<times> 'v) list \<Rightarrow> ('k \<times> 'v) list" where
  "dict_of_pairs ps = foldl (\<lambda>d kv. dict_set d (fst kv) (snd kv)) [] ps"

text \<open>
  \<open>a == b\<close>. The comparison is used on \<open>None\<close>, booleans, integers and strings only
  (lists and dicts are rejected as unhashable before any comparison, or are compared
  with a string); there it is structural equality, except that \<open>True == 1\<close> and
  \<open>False == 0\<close>.
\<close>

fun py_eq :: "json \<Rightarrow> json \<Rightarrow> bool" where
  "py_eq (JBool b) (JInt i) = (i = (if b then 1 else 0))"
| "py_eq (JInt i) (JBool b) = (i = (if b then 1 else 0))"
| "py_eq a b = (a = b)"

text \<open>Values that can be members of a \<open>set\<close>: everything but lists and dicts.\<close>

fun hashable :: "json \<Rightarrow> bool" where
  "hashable (JList xs) = False"
| "hashable (JObj kvs) = False"
| "hashable _ = True"

text \<open>
  \<open>total += v\<close> for an integer \<open>total\<close>: integers and booleans add, every other JSON
  value raises a TypeError.
\<close>

fun py_add :: "int \<Rightarrow> json \<Rightarrow> exn + int" where
  "py_add n (JInt i) = Inr (n + i)"
| "py_add n (JBool b) = Inr (n + (if b then 1 else 0))"
| "py_add n _ = Inl TypeError"

section \<open>HTTP client adapter: \<open>_make_request\<close>\<close>

text \<open>
  What \<open>self.session.get\<close> does is the library's business; the model takes its outcome.
  It raises a \<open>requests.exceptions.RequestException\<close> (a ConnectionError, or a
  RetryError once the adapter's \<open>Retry(total=3, status_forcelist=[429, 500, 502, 503, 504])\<close>
  budget of \<open>_create_session\<close> is used up; the exception may carry a response, whose
  text is then given), or it raises an exception of another class, or it returns a
  response with a status code, a body text and the JSON value the body parses to, if it
  does.
\<close>

datatype cause = ConnectionError | RetryError | HTTPError nat | InvalidJSON

record response =
  status_code :: nat
  body_text :: string
  parsed :: "json option"

datatype get_outcome =
    GetRaised cause "string option"
  | GetRaisedOther exn
  | GetReturned response

text \<open>The lines \<open>_make_request\<close> and \<open>load_historical_data\<close> print.\<close>

datatype printed =
    ErrorFetching string cause
  | ResponseText string
  | WarningCouldNotLoad exn

definition status_forcelist :: "nat list" where
  "status_forcelist = [429, 500, 502, 503, 504]"

text \<open>
  \<open>_make_request\<close> (lines 52--62): the value returned or the exception that leaves the
  function, and the lines printed. \<open>raise_for_status\<close> raises an HTTPError carrying the
  response for every status from 400 to 599; \<open>response.json()\<close> raises the library's
  JSONDecodeError, a RequestException without a response (requests 2.27 and later), when
  the body is not JSON. A RequestException is caught: its cause is printed, then the
  response text when the exception carries a response, and \<open>None\<close> is returned. Any
  other exception is not caught.
\<close>

definition make_request :: "string \<Rightarrow> get_outcome \<Rightarrow> (exn + json) \<times> printed list" where
  "make_request url outcome =
     (case outcome of
        GetRaised c resp_text \<Rightarrow>
          (Inr JNull,
           ErrorFetching url c # (case resp_text of None \<Rightarrow> [] | Some t \<Rightarrow> [ResponseText t]))
      | GetRaisedOther e \<Rightarrow> (Inl e, [])
      | GetReturned r \<Rightarrow>
          if 400 \<le> status_code r \<and> status_code r < 600
          then (Inr JNull, [ErrorFetching url (HTTPError (status_code r)), ResponseText (body_text r)])
          else (case parsed r of
                  None \<Rightarrow> (Inr JNull, [ErrorFetching url InvalidJSON])
                | Some j \<Rightarrow> (Inr j, [])))"

section \<open>The remote API as seen through \<open>_make_request\<close>\<close>

text \<open>
  The functions above \<open>_make_request\<close> only see the value it returns (\<open>None\<close> for a
  request that failed). The requests they
  issue are the repository list pages, the two traffic series, the commit list pages
  (owner, repository, since, until, page) and the commit details (owner, repository,
  sha).
\<close>

datatype request =
    ReposPage nat
  | TrafficViews json json
  | TrafficClones json json
  | CommitsPage json json string string nat
  | CommitDetail json json json

text \<open>
  The environment of one run: the answer to every request, the library's date
  arithmetic (\<open>strptime\<close> with \<open>%Y-%m-%d\<close>, then the ISO texts of the first and last
  instant of that day; \<open>None\<close> when \<open>strptime\<close> raises ValueError), and the time
  \<open>datetime.now().isoformat()\<close> reads when the \<open>i\<close>-th repository is assembled.
\<close>

record world =
  api :: "request \<Rightarrow> json"
  day_window :: "string \<Rightarrow> (string \<times> string) option"
  clock :: "nat \<Rightarrow> string"

section \<open>Paginator: the loops of \<open>get_all_repos\<close> and \<open>get_commits\<close>\<close>

definition per_page :: nat where
  "per_page = 100"

text \<open>
  The \<open>while True\<close> loop of lines 71--84 and, with the same body, of lines 135--152.
  \<open>fetch page\<close> is what \<open>_make_request\<close> returns for that page. The loop returns the
  accumulated items together with the final value of \<open>page\<close>, which is the number of
  requests made since the loop was entered at \<open>page = 1\<close>. It need not terminate.
\<close>

partial_function (option) page_loop ::
  "(nat \<Rightarrow> json) \<Rightarrow> nat \<Rightarrow> json list \<Rightarrow> (exn + json list \<times> nat) option" where
  "page_loop fetch page acc =
     (let data = fetch page in
      if \<not> truthy data then Some (Inr (acc, page))
      else (case py_len data of
              Inl e \<Rightarrow> Some (Inl e)
            | Inr n \<Rightarrow>
                if n = 0 then Some (Inr (acc, page))
                else (case py_iter data of
                        Inl e \<Rightarrow> Some (Inl e)
                      | Inr items \<Rightarrow>
                          if n < per_page then Some (Inr (acc @ items, page))
                          else page_loop fetch (Suc page) (acc @ items))))"

declare page_loop.simps [code]

definition get_all_repos :: "(request \<Rightarrow> json) \<Rightarrow> (exn + json list) option" where
  "get_all_repos a = seq (page_loop (\<lambda>p. a (ReposPage p)) 1 []) (\<lambda>r. Some (Inr (fst r)))"

definition get_commits ::
  "(request \<Rightarrow> json) \<Rightarrow> json \<Rightarrow> json \<Rightarrow> string \<Rightarrow> string \<Rightarrow> (exn + json list) option" where
  "get_commits a owner repo since until =
     seq (page_loop (\<lambda>p. a (CommitsPage owner repo since until p)) 1 []) (\<lambda>r. Some (Inr (fst r)))"

section \<open>Traffic window extractor: \<open>get_traffic_for_date\<close>\<close>

definition zero_traffic :: "(string \<times> json) list" where
  "zero_traffic = [(''count'', JInt 0), (''uniques'', JInt 0)]"

text \<open>The \<open>for entry in ...\<close> loop of lines 109--114, with the \<open>break\<close> at the first match.\<close>

fun scan_entries :: "json list \<Rightarrow> string \<Rightarrow> (string \<times> json) list \<Rightarrow> exn + json" where
  "scan_entries [] target_date result = Inr (JObj result)"
| "scan_entries (entry # rest) target_date result =
     and_then (py_getitem entry ''timestamp'') (\<lambda>ts.
     and_then (py_slice10 ts) (\<lambda>entry_date.
       if py_eq entry_date (JStr target_date)
       then and_then (py_get entry ''count'' (JInt 0)) (\<lambda>c.
            and_then (py_get entry ''uniques'' (JInt 0)) (\<lambda>u.
              Inr (JObj (dict_set (dict_set result ''count'' c) ''uniques'' u))))
       else scan_entries rest target_date result))"

definition get_traffic_for_date :: "json \<Rightarrow> string \<Rightarrow> exn + json" where
  "get_traffic_for_date traffic_data target_date =
     (if truthy traffic_data
      then and_then (py_contains ''views'' traffic_data) (\<lambda>has_views.
           let data_key = (if has_views then ''views'' else ''clones'') in
           and_then (py_contains data_key traffic_data) (\<lambda>present.
             if present
             then and_then (py_getitem traffic_data data_key) (\<lambda>series.
                  and_then (py_iter series) (\<lambda>entries.
                    scan_entries entries target_date zero_traffic))
             else Inr (JObj zero_traffic)))
      else Inr (JObj zero_traffic))"

section \<open>Commit aggregator: \<open>get_commit_stats\<close>\<close>

text \<open>
  The loop of lines 164--171; \<open>detail sha\<close> is what \<open>_make_request\<close> returns for the
  commit's detail URL.
\<close>

fun sum_stats :: "(json \<Rightarrow> json) \<Rightarrow> json list \<Rightarrow> int \<Rightarrow> int \<Rightarrow> exn + int \<times> int" where
  "sum_stats detail [] total_additions total_deletions = Inr (total_additions, total_deletions)"
| "sum_stats detail (commit # rest) total_additions total_deletions =
     and_then (py_getitem commit ''sha'') (\<lambda>sha.
       let commit_detail = detail sha in
       if truthy commit_detail
       then and_then (py_contains ''stats'' commit_detail) (\<lambda>has_stats.
            if has_stats
            then and_then (py_getitem commit_detail ''stats'') (\<lambda>stats.
                 and_then (py_get stats ''additions'' (JInt 0)) (\<lambda>x.
                 and_then (py_add total_additions x) (\<lambda>a'.
                 and_then (py_getitem commit_detail ''stats'') (\<lambda>stats'.
                 and_then (py_get stats' ''deletions'' (JInt 0)) (\<lambda>y.
                 and_then (py_add total_deletions y) (\<lambda>d'.
                   sum_stats detail rest a' d'))))))
            else sum_stats detail rest total_additions total_deletions)
       else sum_stats detail rest total_additions total_deletions)"

definition get_commit_stats ::
  "(request \<Rightarrow> json) \<Rightarrow> json \<Rightarrow> json \<Rightarrow> string \<Rightarrow> string \<Rightarrow> (exn + json) option" where
  "get_commit_stats a owner repo since until =
     seq (get_commits a owner repo since until) (\<lambda>commits.
       Some (and_then (sum_stats (\<lambda>sha. a (CommitDetail owner repo sha)) commits 0 0) (\<lambda>totals.
         Inr (JObj [(''commits'', JInt (int (length commits))),
                    (''additions'', JInt (fst totals)),
                    (''deletions'', JInt (snd totals)),
                    (''net_change'', JInt (fst totals - snd totals))]))))"

section \<open>Snapshot assembler and run orchestration\<close>

text \<open>
  \<open>get_repo_stats\<close> (lines 180--238), for a dictionary \<open>repo\<close> of the repository list.
  \<open>scraped_at\<close> is the text \<open>datetime.now().isoformat()\<close> returns at line 235.
\<close>

definition traffic_or_zero :: "json \<Rightarrow> string \<Rightarrow> exn + json" where
  "traffic_or_zero series target_date =
     (if truthy series then get_traffic_for_date series target_date else Inr (JObj zero_traffic))"

definition get_repo_stats :: "world \<Rightarrow> string \<Rightarrow> json \<Rightarrow> string \<Rightarrow> (exn + json) option" where
  "get_repo_stats w scraped_at repo target_date =
     seq (Some (py_getitem repo ''owner'')) (\<lambda>owner_dict.
     seq (Some (py_getitem owner_dict ''login'')) (\<lambda>owner.
     seq (Some (py_getitem repo ''name'')) (\<lambda>repo_name.
     seq (Some (case day_window w target_date of None \<Rightarrow> Inl ValueError | Some sw \<Rightarrow> Inr sw)) (\<lambda>sw.
     let views_data = api w (TrafficViews owner repo_name);
         clones_data = api w (TrafficClones owner repo_name) in
     seq (Some (traffic_or_zero views_data target_date)) (\<lambda>views_for_date.
     seq (Some (traffic_or_zero clones_data target_date)) (\<lambda>clones_for_date.
     seq (get_commit_stats (api w) owner repo_name (fst sw) (snd sw)) (\<lambda>commit_stats.
     seq (Some (py_getitem repo ''full_name'')) (\<lambda>full_name.
     seq (Some (sequence
            [py_get repo ''private'' (JBool False),
             py_get repo ''description'' JNull,
             py_get repo ''html_url'' JNull,
             py_get repo ''language'' JNull,
             py_get repo ''stargazers_count'' (JInt 0),
             py_get repo ''forks_count'' (JInt 0),
             py_get repo ''watchers_count'' (JInt 0),
             py_get repo ''open_issues_count'' (JInt 0)])) (\<lambda>meta.
     seq (Some (sequence
            [py_getitem views_for_date ''count'',
             py_getitem views_for_date ''uniques'',
             py_getitem clones_for_date ''count'',
             py_getitem clones_for_date ''uniques''])) (\<lambda>traffic.
       Some (Inr (JObj
         [(''date'', JStr target_date),
          (''repository'', JObj (zip
              [''name'', ''full_name'', ''owner'', ''private'', ''description'', ''url'',
               ''language'', ''stargazers_count'', ''forks_count'', ''watchers_count'',
               ''open_issues_count'']
              ([repo_name, full_name, owner] @ meta))),
          (''traffic'', JObj (zip
              [''views'', ''views_uniques'', ''clones'', ''clones_uniques''] traffic)),
          (''commits'', commit_stats),
          (''scraped_at'', JStr scraped_at)]))))))))))))"

text \<open>
  The loop of \<open>scrape_all_repos\<close> (lines 257--263). Every exception of
  \<open>get_repo_stats\<close> is caught; the handler prints \<open>repo['full_name']\<close>, which is
  evaluated inside the handler and can itself raise.
\<close>

fun scrape_loop :: "world \<Rightarrow> string \<Rightarrow> json list \<Rightarrow> nat \<Rightarrow> json list \<Rightarrow> (exn + json list) option" where
  "scrape_loop w target_date [] i all_stats = Some (Inr all_stats)"
| "scrape_loop w target_date (repo # rest) i all_stats =
     (case get_repo_stats w (clock w i) repo target_date of
        None \<Rightarrow> None
      | Some (Inr stats) \<Rightarrow> scrape_loop w target_date rest (Suc i) (all_stats @ [stats])
      | Some (Inl e) \<Rightarrow>
          (case py_getitem repo ''full_name'' of
             Inl e' \<Rightarrow> Some (Inl e')
           | Inr name \<Rightarrow> scrape_loop w target_date rest (Suc i) all_stats))"

text \<open>
  \<open>scrape_all_repos\<close> (lines 240--265); \<open>target_date\<close> is the text line 251 computes
  from the clock and \<open>days_ago\<close>.
\<close>

definition scrape_all_repos :: "world \<Rightarrow> string \<Rightarrow> (exn + json list) option" where
  "scrape_all_repos w target_date =
     seq (get_all_repos (api w)) (\<lambda>repos. scrape_loop w target_date repos 0 [])"

section \<open>Historical merge store, JSON backend\<close>

text \<open>
  A file on disk, as the code observes it: absent (\<open>os.path.exists\<close> is false),
  present but raising the given exception when it is opened, read and parsed, or present
  with the content it parses to. Writing a file always succeeds.
\<close>

datatype 'a disk_file = Missing | Unreadable exn | Content 'a

definition empty_store :: json where
  "empty_store = JObj [(''historical_data'', JList [])]"

text \<open>
  \<open>load_historical_data\<close> (lines 267--276). The \<open>except\<close> clause names
  \<open>json.JSONDecodeError\<close> and \<open>IOError\<close>; any other exception of the \<open>try\<close> body
  leaves the function. (\<open>open(..., encoding="utf-8")\<close> followed by \<open>json.load\<close> raises
  UnicodeDecodeError, a ValueError that is neither of the two, on bytes that are not
  UTF-8, and RecursionError on input nested too deeply.)
\<close>

definition load_historical_data :: "json disk_file \<Rightarrow> (exn + json) \<times> printed list" where
  "load_historical_data f =
     (case f of
        Missing \<Rightarrow> (Inr empty_store, [])
      | Content j \<Rightarrow> (Inr j, [])
      | Unreadable e \<Rightarrow>
          if e = JSONDecodeError \<or> e = IOError
          then (Inr empty_store, [WarningCouldNotLoad e])
          else (Inl e, []))"

text \<open>
  The set comprehension of line 291: \<open>entry.get("date")\<close> of every entry, each of
  which must be hashable to enter the set.
\<close>

fun entry_dates :: "json list \<Rightarrow> exn + json list" where
  "entry_dates [] = Inr []"
| "entry_dates (entry # rest) =
     and_then (py_get entry ''date'' JNull) (\<lambda>d.
       if hashable d then and_then (entry_dates rest) (\<lambda>ds. Inr (d # ds)) else Inl TypeError)"

text \<open>The list comprehension of lines 296--299.\<close>

fun remove_date :: "json \<Rightarrow> json list \<Rightarrow> exn + json list" where
  "remove_date target_date [] = Inr []"
| "remove_date target_date (entry # rest) =
     and_then (py_get entry ''date'' JNull) (\<lambda>d.
     and_then (remove_date target_date rest) (\<lambda>kept.
       Inr (if py_eq d target_date then kept else entry # kept)))"

text \<open>
  Lines 288--306 of \<open>save_to_json\<close>: the store after the merge, or the exception raised
  before anything is written. \<open>now\<close> is the text of \<open>datetime.now().isoformat()\<close>.
\<close>

definition merge_json :: "json \<Rightarrow> json list \<Rightarrow> json \<Rightarrow> string \<Rightarrow> exn + json" where
  "merge_json historical data first now =
     and_then (py_getitem first ''date'') (\<lambda>target_date.
     and_then (py_get historical ''historical_data'' (JList [])) (\<lambda>old.
     and_then (py_iter old) (\<lambda>entries.
     and_then (entry_dates entries) (\<lambda>existing_dates.
     case historical of
       JObj h \<Rightarrow>
         if \<not> hashable target_date then Inl TypeError
         else
           and_then
             (if \<exists>d \<in> set existing_dates. py_eq d target_date
              then and_then (remove_date target_date entries) (\<lambda>kept.
                     Inr (dict_set h ''historical_data'' (JList kept)))
              else Inr h) (\<lambda>h1.
           let h2 = (if ''historical_data'' \<in> set (map fst h1) then h1
                     else dict_set h1 ''historical_data'' (JList [])) in
           and_then (py_getitem (JObj h2) ''historical_data'') (\<lambda>cur.
             case cur of
               JList xs \<Rightarrow>
                 Inr (JObj (dict_set (dict_set h2 ''historical_data'' (JList (xs @ data)))
                                     ''last_updated'' (JStr now)))
             | _ \<Rightarrow> Inl AttributeError))
     | _ \<Rightarrow> Inl AttributeError))))"

text \<open>
  \<open>save_to_json\<close> (lines 278--316): the exception raised, if any, and the file
  afterwards. An exception is raised before the file is opened for writing, which
  leaves the file as it was.
\<close>

definition save_to_json :: "json list \<Rightarrow> string \<Rightarrow> json disk_file \<Rightarrow> exn option \<times> json disk_file" where
  "save_to_json data now f =
     (case fst (load_historical_data f) of
        Inl e \<Rightarrow> (Some e, f)
      | Inr historical \<Rightarrow>
          (case data of
             [] \<Rightarrow> (None, Content (JList data))
           | first # others \<Rightarrow>
               (case py_contains ''date'' first of
                  Inl e \<Rightarrow> (Some e, f)
                | Inr has_date \<Rightarrow>
                    if has_date
                    then (case merge_json historical data first now of
                            Inl e \<Rightarrow> (Some e, f)
                          | Inr h \<Rightarrow> (None, Content h))
                    else (None, Content (JList data)))))"

section \<open>Historical merge store, CSV backend\<close>

text \<open>
  A CSV file is the list of its records, each a list of fields; a blank line is the
  empty record. The \<open>csv\<close> module's quoting lets every field text survive writing and
  reading back, so the file is modelled by the records it parses to.
\<close>

type_synonym csv_lines = "string list list"

text \<open>
  A row dictionary of \<open>csv.DictReader\<close> and \<open>csv.DictWriter\<close>: the keys are field names
  or \<open>None\<close>, the \<open>restkey\<close> under which a reader files surplus fields.
\<close>

type_synonym csv_row = "(string option \<times> json) list"

definition fieldnames :: "string list" where
  "fieldnames =
     [''date'', ''repository'', ''private'', ''language'', ''stars'', ''forks'',
      ''watchers'', ''open_issues'', ''views'', ''views_uniques'', ''clones'',
      ''clones_uniques'', ''commits'', ''additions'', ''deletions'', ''net_change'',
      ''scraped_at'']"

text \<open>
  \<open>DictReader.__next__\<close>: the fields are zipped with the header; surplus fields go
  under the key \<open>None\<close> as a list, missing ones are \<open>None\<close>.
\<close>

definition reader_row :: "string list \<Rightarrow> string list \<Rightarrow> csv_row" where
  "reader_row header cells =
     (let d = dict_of_pairs (zip (map Some header) (map JStr cells)) in
      if length header < length cells
      then dict_set d None (JList (map JStr (drop (length header) cells)))
      else foldl (\<lambda>d k. dict_set d (Some k) JNull) d (drop (length cells) header))"

text \<open>\<open>list(csv.DictReader(f))\<close>: the first record is the header, blank records are skipped.\<close>

definition DictReader :: "csv_lines \<Rightarrow> csv_row list" where
  "DictReader ls =
     (case ls of
        [] \<Rightarrow> []
      | header # records \<Rightarrow> map (reader_row header) (filter (\<lambda>r. r \<noteq> []) records))"

text \<open>Decimal text of an integer, as \<open>str\<close> gives it.\<close>

fun digits :: "nat \<Rightarrow> string" where
  "digits n =
     (if n < 10 then [''0123456789'' ! n]
      else digits (n div 10) @ [''0123456789'' ! (n mod 10)])"

definition str_int :: "int \<Rightarrow> string" where
  "str_int i = (if i < 0 then CHR ''-'' # digits (nat (- i)) else digits (nat i))"

text \<open>
  The text the \<open>csv\<close> writer puts in a field: a string as it is, \<open>None\<close> as the empty
  text, anything else through \<open>str\<close>. The \<open>str\<close> of a list or dict is the library's and
  is taken as the parameter \<open>repr\<close>.
\<close>

fun csv_cell :: "(json \<Rightarrow> string) \<Rightarrow> json \<Rightarrow> string" where
  "csv_cell repr JNull = []"
| "csv_cell repr (JStr s) = s"
| "csv_cell repr (JBool b) = (if b then ''True'' else ''False'')"
| "csv_cell repr (JInt i) = str_int i"
| "csv_cell repr v = repr v"

text \<open>
  \<open>DictWriter._dict_to_list\<close> with the default \<open>extrasaction='raise'\<close> and
  \<open>restval=''\<close>: a key outside the field names is a ValueError.
\<close>

definition dict_to_list :: "(json \<Rightarrow> string) \<Rightarrow> csv_row \<Rightarrow> exn + string list" where
  "dict_to_list repr row =
     (if \<exists>k \<in> set (map fst row). k \<notin> set (map Some fieldnames) then Inl ValueError
      else Inr (map (\<lambda>key. csv_cell repr
                     (case map_of row (Some key) of None \<Rightarrow> JStr [] | Some v \<Rightarrow> v))
                 fieldnames))"

text \<open>
  \<open>writer.writerows\<close>: rows are written one after the other; a row that raises leaves
  the rows before it in the file.
\<close>

fun writerows :: "(json \<Rightarrow> string) \<Rightarrow> csv_row list \<Rightarrow> csv_lines \<Rightarrow> exn option \<times> csv_lines" where
  "writerows repr [] out = (None, out)"
| "writerows repr (row # rows) out =
     (case dict_to_list repr row of
        Inl e \<Rightarrow> (Some e, out)
      | Inr cells \<Rightarrow> writerows repr rows (out @ [cells]))"

text \<open>The dictionary literal of lines 349--371.\<close>

definition new_row :: "json \<Rightarrow> exn + csv_row" where
  "new_row repo_data =
     and_then (py_getitem repo_data ''repository'') (\<lambda>repo.
     and_then (py_getitem repo_data ''traffic'') (\<lambda>traffic.
     and_then (py_getitem repo_data ''commits'') (\<lambda>commits.
     and_then (sequence
        [py_get repo_data ''date'' (JStr []),
         py_getitem repo ''full_name'',
         py_getitem repo ''private'',
         py_get repo ''language'' (JStr []),
         py_getitem repo ''stargazers_count'',
         py_getitem repo ''forks_count'',
         py_getitem repo ''watchers_count'',
         py_getitem repo ''open_issues_count'',
         py_get traffic ''views'' (JInt 0),
         py_get traffic ''views_uniques'' (JInt 0),
         py_get traffic ''clones'' (JInt 0),
         py_get traffic ''clones_uniques'' (JInt 0),
         py_get commits ''commits'' (JInt 0),
         py_get commits ''additions'' (JInt 0),
         py_get commits ''deletions'' (JInt 0),
         py_get commits ''net_change'' (JInt 0),
         py_get repo_data ''scraped_at'' (JStr [])]) (\<lambda>vals.
       Inr (zip (map Some fieldnames) vals)))))"

text \<open>\<open>row.get("date")\<close> of a reader row.\<close>

definition row_date :: "csv_row \<Rightarrow> json" where
  "row_date row = (case map_of row (Some ''date'') of None \<Rightarrow> JNull | Some v \<Rightarrow> v)"

text \<open>
  \<open>save_to_csv\<close> (lines 318--389): the exception raised, if any, and the file
  afterwards. Reading the existing file is wrapped in \<open>except Exception\<close>, so a file that
  cannot be read counts as having no rows.
\<close>

definition save_to_csv :: "(json \<Rightarrow> string) \<Rightarrow> json list \<Rightarrow> csv_lines disk_file \<Rightarrow> exn option \<times> csv_lines disk_file" where
  "save_to_csv repr data f =
     (case data of
        [] \<Rightarrow> (None, f)
      | first # others \<Rightarrow>
          (let existing_rows = (case f of Content ls \<Rightarrow> DictReader ls | _ \<Rightarrow> []) in
           case py_get first ''date'' (JStr []) of
             Inl e \<Rightarrow> (Some e, f)
           | Inr target_date \<Rightarrow>
               (let kept = (if truthy target_date
                            then filter (\<lambda>row. \<not> py_eq (row_date row) target_date) existing_rows
                            else existing_rows) in
                case sequence (map new_row data) of
                  Inl e \<Rightarrow> (Some e, f)
                | Inr new_rows \<Rightarrow>
                    (let all_rows = kept @ new_rows in
                     if all_rows \<noteq> []
                     then (case writerows repr all_rows [fieldnames] of
                             (err, ls) \<Rightarrow> (err, Content ls))
                     else (None, f)))))"

section \<open>Vocabulary of the properties\<close>

text \<open>The timestamp text of a well-formed traffic entry.\<close>

fun timestamp_of :: "json \<Rightarrow> string option" where
  "timestamp_of (JObj kvs) = (case map_of kvs ''timestamp'' of Some (JStr ts) \<Rightarrow> Some ts | _ \<Rightarrow> None)"
| "timestamp_of _ = None"

text \<open>An entry is on a day when the first ten characters of its timestamp are that day.\<close>

definition on_day :: "string \<Rightarrow> json \<Rightarrow> bool" where
  "on_day d e = (case timestamp_of e of Some ts \<Rightarrow> take 10 ts = d | None \<Rightarrow> False)"

text \<open>A field of a dictionary, with a default when the key is absent.\<close>

fun field :: "json \<Rightarrow> string \<Rightarrow> json \<Rightarrow> json" where
  "field (JObj kvs) k d = (case map_of kvs k of None \<Rightarrow> d | Some v \<Rightarrow> v)"
| "field _ k d = d"

definition counts_of :: "json \<Rightarrow> json" where
  "counts_of e = JObj [(''count'', field e ''count'' (JInt 0)), (''uniques'', field e ''uniques'' (JInt 0))]"

text \<open>The array key of a traffic response: \<open>views\<close> when present, \<open>clones\<close> otherwise.\<close>

definition series_key :: "(string \<times> json) list \<Rightarrow> string" where
  "series_key d = (if ''views'' \<in> set (map fst d) then ''views'' else ''clones'')"

text \<open>
  One statistic of a commit detail: the integer under \<open>stats\<close>, zero when the fetch
  failed, when there is no \<open>stats\<close> object or when it lacks the key.
\<close>

definition stat :: "string \<Rightarrow> json \<Rightarrow> int" where
  "stat key detail =
     (case detail of
        JObj dk \<Rightarrow>
          (case map_of dk ''stats'' of
             Some (JObj sk) \<Rightarrow> (case map_of sk key of Some (JInt n) \<Rightarrow> n | _ \<Rightarrow> 0)
           | _ \<Rightarrow> 0)
      | _ \<Rightarrow> 0)"

definition int_or_absent :: "(string \<times> json) list \<Rightarrow> string \<Rightarrow> bool" where
  "int_or_absent sk k = (case map_of sk k of None \<Rightarrow> True | Some (JInt n) \<Rightarrow> True | Some _ \<Rightarrow> False)"

text \<open>
  A commit detail as the API gives it: \<open>None\<close> for a failed fetch, or a dictionary whose
  \<open>stats\<close>, if present, is a dictionary with integer \<open>additions\<close> and \<open>deletions\<close>.
\<close>

definition detail_ok :: "json \<Rightarrow> bool" where
  "detail_ok d =
     (case d of
        JNull \<Rightarrow> True
      | JObj dk \<Rightarrow>
          (case map_of dk ''stats'' of
             None \<Rightarrow> True
           | Some (JObj sk) \<Rightarrow> int_or_absent sk ''additions'' \<and> int_or_absent sk ''deletions''
           | Some _ \<Rightarrow> False)
      | _ \<Rightarrow> False)"

fun sha_of :: "json \<Rightarrow> json option" where
  "sha_of (JObj kvs) = map_of kvs ''sha''"
| "sha_of _ = None"

definition commit_ok :: "(json \<Rightarrow> json) \<Rightarrow> json \<Rightarrow> bool" where
  "commit_ok detail c = (case sha_of c of None \<Rightarrow> False | Some sha \<Rightarrow> detail_ok (detail sha))"

definition commit_stat :: "(json \<Rightarrow> json) \<Rightarrow> string \<Rightarrow> json \<Rightarrow> int" where
  "commit_stat detail key c = (case sha_of c of None \<Rightarrow> 0 | Some sha \<Rightarrow> stat key (detail sha))"


text \<open>The date of a stored entry, \<open>None\<close> when it has none.\<close>

definition entry_date :: "json \<Rightarrow> json" where
  "entry_date e = field e ''date'' JNull"

text \<open>A snapshot of the date \<open>D\<close>: a dictionary whose \<open>date\<close> is the string \<open>D\<close>.\<close>

definition dated :: "string \<Rightarrow> json \<Rightarrow> bool" where
  "dated D s = (case s of JObj kvs \<Rightarrow> map_of kvs ''date'' = Some (JStr D) | _ \<Rightarrow> False)"

text \<open>The \<open>historical_data\<close> entries of a store and of a store file.\<close>

definition store_entries :: "json \<Rightarrow> json list" where
  "store_entries j =
     (case j of
        JObj h \<Rightarrow> (case map_of h ''historical_data'' of Some (JList es) \<Rightarrow> es | _ \<Rightarrow> [])
      | _ \<Rightarrow> [])"

definition file_entries :: "json disk_file \<Rightarrow> json list" where
  "file_entries f = (case f of Content j \<Rightarrow> store_entries j | _ \<Rightarrow> [])"

text \<open>
  A store file in the documented shape: absent, or unparsable with one of the two
  exceptions that are recovered from, or an object whose \<open>historical_data\<close>, if present,
  is a list of dictionaries with hashable dates.
\<close>

definition entry_ok :: "json \<Rightarrow> bool" where
  "entry_ok e = (case e of JObj kvs \<Rightarrow> hashable (entry_date e) | _ \<Rightarrow> False)"

definition store_ok :: "json disk_file \<Rightarrow> bool" where
  "store_ok f =
     (case f of
        Missing \<Rightarrow> True
      | Unreadable e \<Rightarrow> e = JSONDecodeError \<or> e = IOError
      | Content j \<Rightarrow>
          (case j of
             JObj h \<Rightarrow>
               (case map_of h ''historical_data'' of
                  None \<Rightarrow> True
                | Some (JList es) \<Rightarrow> list_all entry_ok es
                | Some _ \<Rightarrow> False)
           | _ \<Rightarrow> False))"

text \<open>
  The documented column mapping: each CSV column with the place of its value in a
  snapshot.
\<close>

definition column_mapping :: "(string \<times> string list) list" where
  "column_mapping =
     [(''date'', [''date'']),
      (''repository'', [''repository'', ''full_name'']),
      (''private'', [''repository'', ''private'']),
      (''language'', [''repository'', ''language'']),
      (''stars'', [''repository'', ''stargazers_count'']),
      (''forks'', [''repository'', ''forks_count'']),
      (''watchers'', [''repository'', ''watchers_count'']),
      (''open_issues'', [''repository'', ''open_issues_count'']),
      (''views'', [''traffic'', ''views'']),
      (''views_uniques'', [''traffic'', ''views_uniques'']),
      (''clones'', [''traffic'', ''clones'']),
      (''clones_uniques'', [''traffic'', ''clones_uniques'']),
      (''commits'', [''commits'', ''commits'']),
      (''additions'', [''commits'', ''additions'']),
      (''deletions'', [''commits'', ''deletions'']),
      (''net_change'', [''commits'', ''net_change'']),
      (''scraped_at'', [''scraped_at''])]"

text \<open>The value found by descending through nested dictionaries.\<close>

fun at_path :: "json \<Rightarrow> string list \<Rightarrow> json option" where
  "at_path j [] = Some j"
| "at_path (JObj kvs) (k # ks) = (case map_of kvs k of None \<Rightarrow> None | Some v \<Rightarrow> at_path v ks)"
| "at_path _ (k # ks) = None"

text \<open>A snapshot of the documented shape has a value at the place of every column.\<close>

definition complete :: "json \<Rightarrow> bool" where
  "complete s = list_all (\<lambda>cp. at_path s (snd cp) \<noteq> None) column_mapping"

text \<open>The values of a snapshot at the places of the columns, in column order.\<close>

definition snapshot_values :: "json \<Rightarrow> json list" where
  "snapshot_values s =
     map (\<lambda>cp. case at_path s (snd cp) of None \<Rightarrow> JNull | Some v \<Rightarrow> v) column_mapping"

text \<open>The row of a snapshot under the column mapping, each value as CSV text.\<close>

definition flat_row :: "(json \<Rightarrow> string) \<Rightarrow> json \<Rightarrow> string list" where
  "flat_row repr s =
     map (\<lambda>cp. case at_path s (snd cp) of None \<Rightarrow> [] | Some v \<Rightarrow> csv_cell repr v) column_mapping"

text \<open>
  A CSV file as \<open>save_to_csv\<close> writes it: absent, empty, or the header followed by
  records with one field for every column. Its data rows, and the date of a row.
\<close>

definition csv_ok :: "csv_lines disk_file \<Rightarrow> bool" where
  "csv_ok f =
     (case f of
        Missing \<Rightarrow> True
      | Unreadable e \<Rightarrow> False
      | Content ls \<Rightarrow>
          (case ls of
             [] \<Rightarrow> True
           | header # records \<Rightarrow>
               header = fieldnames \<and> list_all (\<lambda>r. length r = length fieldnames) records))"

definition csv_rows :: "csv_lines disk_file \<Rightarrow> string list list" where
  "csv_rows f = (case f of Content (header # records) \<Rightarrow> records | _ \<Rightarrow> [])"

definition csv_date :: "string list \<Rightarrow> string" where
  "csv_date r = (case map_of (zip fieldnames r) ''date'' of None \<Rightarrow> [] | Some c \<Rightarrow> c)"

text \<open>A synthetic listing: page \<open>p\<close> of the given pages, the empty list beyond them.\<close>

definition serve :: "json list \<Rightarrow> nat \<Rightarrow> json" where
  "serve pages p = (if 1 \<le> p \<and> p \<le> length pages then pages ! (p - 1) else JList [])"

section \<open>Sample data\<close>

text \<open>
  A small account for concrete runs: three repositories, the second without an
  \<open>owner\<close>; a views series for two days and no clones series; four commits on the day,
  the detail of the last of which cannot be fetched.
\<close>

definition sample_repo :: "string \<Rightarrow> json" where
  "sample_repo n =
     JObj [(''name'', JStr n), (''full_name'', JStr (''acme/'' @ n)),
           (''owner'', JObj [(''login'', JStr ''acme'')]), (''private'', JBool False),
           (''language'', JStr ''Python''), (''stargazers_count'', JInt 3)]"

definition broken_repo :: json where
  "broken_repo = JObj [(''name'', JStr ''x''), (''full_name'', JStr ''acme/x'')]"

definition sample_stats :: "int \<Rightarrow> int \<Rightarrow> json" where
  "sample_stats a d = JObj [(''sha'', JStr ''s''),
                            (''stats'', JObj [(''additions'', JInt a), (''deletions'', JInt d)])]"

definition sample_entries :: "json list" where
  "sample_entries =
     [JObj [(''timestamp'', JStr ''2024-01-06T00:00:00Z''), (''count'', JInt 7),
            (''uniques'', JInt 3)],
      JObj [(''timestamp'', JStr ''2024-01-07T00:00:00Z''), (''count'', JInt 5),
            (''uniques'', JInt 2)]]"

definition sample_series :: "(string \<times> json) list" where
  "sample_series = [(''count'', JInt 12), (''uniques'', JInt 5), (''views'', JList sample_entries)]"

definition sample_views :: json where
  "sample_views = JObj sample_series"

definition sample_commits :: "json list" where
  "sample_commits = [JObj [(''sha'', JStr ''c1'')], JObj [(''sha'', JStr ''c2'')],
                     JObj [(''sha'', JStr ''c3'')], JObj [(''sha'', JStr ''c4'')]]"

fun sample_api :: "request \<Rightarrow> json" where
  "sample_api (ReposPage p) =
     (if p = 1 then JList [sample_repo ''a'', broken_repo, sample_repo ''b''] else JList [])"
| "sample_api (TrafficViews owner repo) = sample_views"
| "sample_api (TrafficClones owner repo) = JNull"
| "sample_api (CommitsPage owner repo since until p) =
     (if p = 1 then JList sample_commits else JList [])"
| "sample_api (CommitDetail owner repo sha) =
     (if sha = JStr ''c1'' then sample_stats 5 1
      else if sha = JStr ''c2'' then sample_stats 0 2
      else if sha = JStr ''c3'' then sample_stats 3 0
      else JNull)"

definition sample_world :: world where
  "sample_world =
     \<lparr>api = sample_api,
      day_window = (\<lambda>d. Some (d @ ''T00:00:00'', d @ ''T23:59:59.999999'')),
      clock = (\<lambda>i. ''2024-01-14T09:00:00'')\<rparr>"




text \<open>The snapshot of a sample repository, as \<open>get_repo_stats\<close> assembles it.\<close>

definition sample_snapshot :: "string \<Rightarrow> string \<Rightarrow> json" where
  "sample_snapshot n t =
     JObj [(''date'', JStr ''2024-01-07''),
           (''repository'',
            JObj [(''name'', JStr n), (''full_name'', JStr (''acme/'' @ n)),
                  (''owner'', JStr ''acme''), (''private'', JBool False),
                  (''description'', JNull), (''url'', JNull), (''language'', JStr ''Python''),
                  (''stargazers_count'', JInt 3), (''forks_count'', JInt 0),
                  (''watchers_count'', JInt 0), (''open_issues_count'', JInt 0)]),
           (''traffic'',
            JObj [(''views'', JInt 5), (''views_uniques'', JInt 2), (''clones'', JInt 0),
                  (''clones_uniques'', JInt 0)]),
           (''commits'',
            JObj [(''commits'', JInt 4), (''additions'', JInt 8), (''deletions'', JInt 3),
                  (''net_change'', JInt 5)]),
           (''scraped_at'', JStr t)]"

text \<open>
  A store of two earlier entries, one of the day before and one of the day itself, as
  the JSON file and as the CSV file.
\<close>

definition sample_entry :: "string \<Rightarrow> json" where
  "sample_entry d =
     JObj [(''date'', JStr d), (''repository'', JObj [(''full_name'', JStr ''acme/a'')])]"

definition sample_store :: "json disk_file" where
  "sample_store =
     Content (JObj [(''historical_data'',
                     JList [sample_entry ''2024-01-06'', sample_entry ''2024-01-07'']),
                    (''last_updated'', JStr ''2024-01-13T09:00:00'')])"

definition sample_line :: "string \<Rightarrow> string list" where
  "sample_line d =
     [d, ''acme/a'', ''False'', ''Python'', ''3'', ''0'', ''0'', ''0'', ''7'', ''3'', ''0'',
      ''0'', ''1'', ''2'', ''1'', ''1'', ''2024-01-13T09:00:00'']"

definition sample_csv :: "csv_lines disk_file" where
  "sample_csv = Content [fieldnames, sample_line ''2024-01-06'', sample_line ''2024-01-07'']"

text \<open>The row of a sample snapshot, as \<open>save_to_csv\<close> writes it.\<close>

definition sample_row :: "string \<Rightarrow> string \<Rightarrow> string list" where
  "sample_row n t =
     [''2024-01-07'', ''acme/'' @ n, ''False'', ''Python'', ''3'', ''0'', ''0'', ''0'', ''5'',
      ''2'', ''0'', ''0'', ''4'', ''8'', ''3'', ''5'', t]"

section \<open>The HTTP client adapter turns failures into \<open>None\<close>\<close>

text \<open>
  Claim C8. When \<open>session.get\<close> raises a RequestException (the retry budget is used
  up, or the connection fails), and when the response has a 4xx status outside the retry
  list, \<open>_make_request\<close> returns \<open>None\<close> and raises nothing. It prints the cause, and
  the response text whenever there is a response: none for an exception without a
  response, the text carried by the exception otherwise, the body of the 4xx response.
\<close>

theorem make_request_failure:
  "make_request url (GetRaised c None) = (Inr JNull, [ErrorFetching url c])
   \<and> make_request url (GetRaised c (Some t)) = (Inr JNull, [ErrorFetching url c, ResponseText t])
   \<and> (400 \<le> status_code r \<and> status_code r < 500 \<and> status_code r \<notin> set status_forcelist \<longrightarrow>
        make_request url (GetReturned r)
          = (Inr JNull, [ErrorFetching url (HTTPError (status_code r)), ResponseText (body_text r)]))"
  by (simp add: make_request_def)

theorem make_request_failure_witness:
  "400 \<le> status_code \<lparr>status_code = 404, body_text = ''Not Found'', parsed = Some (JObj [])\<rparr>
   \<and> status_code \<lparr>status_code = 404, body_text = ''Not Found'', parsed = Some (JObj [])\<rparr> < 500
   \<and> status_code \<lparr>status_code = 404, body_text = ''Not Found'', parsed = Some (JObj [])\<rparr>
         \<notin> set status_forcelist
   \<and> make_request ''u'' (GetReturned
          \<lparr>status_code = 404, body_text = ''Not Found'', parsed = Some (JObj [])\<rparr>)
        = (Inr JNull, [ErrorFetching ''u'' (HTTPError 404), ResponseText ''Not Found''])"
  using make_request_failure
    [of "''u''" _ _ "\<lparr>status_code = 404, body_text = ''Not Found'', parsed = Some (JObj [])\<rparr>"]
  by (simp add: status_forcelist_def)

section \<open>Loading the persisted store\<close>

text \<open>
  \<open>load_historical_data\<close> returns the parsed content of a file that parses, and the empty
  store, after a warning, for a file that is absent or whose reading raises
  JSONDecodeError or IOError.
\<close>

lemma load_historical_data_recovers:
  "load_historical_data Missing = (Inr empty_store, [])
   \<and> load_historical_data (Content j) = (Inr j, [])
   \<and> load_historical_data (Unreadable JSONDecodeError)
       = (Inr empty_store, [WarningCouldNotLoad JSONDecodeError])
   \<and> load_historical_data (Unreadable IOError) = (Inr empty_store, [WarningCouldNotLoad IOError])"
  by (simp add: load_historical_data_def)

text \<open>
  Claim C9 says that an unparsable file gives the empty store and that no failure to
  read or parse leaves the function. For a file whose bytes are not UTF-8 the \<open>try\<close>
  body raises UnicodeDecodeError, which the \<open>except\<close> clause does not name: the exception
  leaves \<open>load_historical_data\<close>, no warning is printed and no store is returned.
\<close>

theorem load_historical_data_undecodable:
  "load_historical_data (Unreadable UnicodeDecodeError) = (Inl UnicodeDecodeError, [])"
  by (simp add: load_historical_data_def)

section \<open>Persisting an empty snapshot list\<close>

text \<open>
  Claim C10. With an empty snapshot list \<open>save_to_csv\<close> returns at once and leaves the
  CSV file as it is, whatever its state. \<open>save_to_json\<close> takes the branch without a
  date and writes the empty list itself: the file then holds \<open>[]\<close>, whether it was absent
  before, held any content \<open>j\<close> (a store with its \<open>historical_data\<close>, which is lost), or
  could not be parsed or read.
\<close>

theorem empty_snapshot_list:
  "save_to_csv repr [] f = (None, f)
   \<and> save_to_json [] now Missing = (None, Content (JList []))
   \<and> save_to_json [] now (Content j) = (None, Content (JList []))
   \<and> save_to_json [] now (Unreadable JSONDecodeError) = (None, Content (JList []))
   \<and> save_to_json [] now (Unreadable IOError) = (None, Content (JList []))"
  by (simp add: save_to_csv_def save_to_json_def load_historical_data_def)

section \<open>Pagination\<close>

text \<open>One turn of the loop: it stops on a falsy answer and on a short page, and goes on after a full one.\<close>

lemma page_loop_stop: "\<not> truthy (fetch p) \<Longrightarrow> page_loop fetch p acc = Some (Inr (acc, p))"
  by (subst page_loop.simps) simp

lemma page_loop_short:
  "fetch p = JList xs \<Longrightarrow> length xs < per_page \<Longrightarrow> page_loop fetch p acc = Some (Inr (acc @ xs, p))"
  by (subst page_loop.simps) (simp add: Let_def)

lemma page_loop_full:
  "fetch p = JList xs \<Longrightarrow> per_page \<le> length xs \<Longrightarrow>
   page_loop fetch p acc = page_loop fetch (Suc p) (acc @ xs)"
  by (subst page_loop.simps) (auto simp add: Let_def per_page_def)

text \<open>A run over pages that are full except for the last.\<close>

lemma page_loop_run:
  "ps \<noteq> [] \<Longrightarrow> \<forall>x \<in> set (butlast ps). length x = per_page \<Longrightarrow> length (last ps) < per_page \<Longrightarrow>
   \<forall>k < length ps. fetch (p + k) = JList (ps ! k) \<Longrightarrow>
   page_loop fetch p acc = Some (Inr (acc @ concat ps, p + length ps - 1))"
proof (induction ps arbitrary: p acc)
  case Nil
  then show ?case by simp
next
  case (Cons x ps)
  have fx: "fetch p = JList x" using Cons.prems(4) by fastforce
  show ?case
  proof (cases "ps = []")
    case True
    with Cons.prems fx show ?thesis by (simp add: page_loop_short)
  next
    case False
    with Cons.prems have full: "length x = per_page" by simp
    have rest: "\<forall>k < length ps. fetch (Suc p + k) = JList (ps ! k)"
    proof (intro allI impI)
      fix k assume "k < length ps"
      then have "fetch (p + Suc k) = JList ((x # ps) ! Suc k)" using Cons.prems(4) by (metis Suc_less_eq length_Cons)
      then show "fetch (Suc p + k) = JList (ps ! k)" by simp
    qed
    have "page_loop fetch (Suc p) (acc @ x) = Some (Inr ((acc @ x) @ concat ps, Suc p + length ps - 1))"
      using Cons.IH [OF False _ _ rest] Cons.prems False by simp
    then show ?thesis using fx full False by (simp add: page_loop_full)
  qed
qed

lemma concat_pages_length:
  "ps \<noteq> [] \<Longrightarrow> \<forall>x \<in> set (butlast ps). length x = per_page \<Longrightarrow> length (last ps) < per_page \<Longrightarrow>
   length (concat ps) div per_page + 1 = length ps"
proof (induction ps)
  case Nil
  then show ?case by simp
next
  case (Cons x ps)
  show ?case
  proof (cases "ps = []")
    case True
    with Cons.prems show ?thesis by simp
  next
    case False
    with Cons.prems have "length (concat ps) div per_page + 1 = length ps" "length x = per_page"
      using Cons.IH by auto
    then show ?thesis by (simp add: per_page_def)
  qed
qed

text \<open>
  Claim C2, as amended. Let the pages be a non-empty sequence in which every page before
  the last has exactly \<open>per_page = 100\<close> items and the last has fewer (possibly none),
  page \<open>k\<close> being the answer to request \<open>k\<close>. Then the loop returns, with the concatenation
  of the pages in order, after as many requests as there are pages, which is
  \<open>total div 100 + 1\<close>; so do \<open>get_all_repos\<close> and \<open>get_commits\<close>. A turn of the loop stops
  when the request failed or gave an empty list (a falsy answer), stops after taking the
  items of a page shorter than \<open>per_page\<close>, and goes on to the next page otherwise.
\<close>

theorem pagination:
  assumes "ps \<noteq> []"
    and "\<forall>x \<in> set (butlast ps). length x = per_page"
    and "length (last ps) < per_page"
    and "\<forall>k < length ps. fetch (Suc k) = JList (ps ! k)"
  shows "page_loop fetch 1 [] = Some (Inr (concat ps, length (concat ps) div per_page + 1))
    \<and> length (concat ps) div per_page + 1 = length ps
    \<and> (\<forall>a. fetch = (\<lambda>p. a (ReposPage p)) \<longrightarrow> get_all_repos a = Some (Inr (concat ps)))
    \<and> (\<forall>a owner repo since until. fetch = (\<lambda>p. a (CommitsPage owner repo since until p)) \<longrightarrow>
          get_commits a owner repo since until = Some (Inr (concat ps)))
    \<and> (\<not> truthy (g q) \<longrightarrow> page_loop g q acc = Some (Inr (acc, q)))
    \<and> (g q = JList xs \<and> length xs < per_page \<longrightarrow> page_loop g q acc = Some (Inr (acc @ xs, q)))
    \<and> (g q = JList xs \<and> per_page \<le> length xs \<longrightarrow>
          page_loop g q acc = page_loop g (Suc q) (acc @ xs))"
proof -
  have n: "length (concat ps) div per_page + 1 = length ps"
    using assms(1-3) by (rule concat_pages_length)
  have "\<forall>k < length ps. fetch (1 + k) = JList (ps ! k)" using assms(4) by simp
  from page_loop_run [OF assms(1-3) this, of "[]"] assms(1)
  have run: "page_loop fetch 1 [] = Some (Inr (concat ps, length ps))"
    by (cases ps) simp_all
  show ?thesis
    using run n
    by (auto simp add: get_all_repos_def get_commits_def seq_def page_loop_stop page_loop_short
        page_loop_full)
qed

theorem pagination_witness:
  "page_loop (serve [JList (replicate 100 (JInt 0)), JList [JInt 1, JInt 2]]) 1 []
     = Some (Inr (replicate 100 (JInt 0) @ [JInt 1, JInt 2], 2))"
proof -
  let ?ps = "[replicate 100 (JInt 0), [JInt 1, JInt 2]]"
  let ?f = "serve [JList (replicate 100 (JInt 0)), JList [JInt 1, JInt 2]]"
  have h1: "?ps \<noteq> []" by simp
  have h2: "\<forall>x \<in> set (butlast ?ps). length x = per_page" by (simp add: per_page_def)
  have h3: "length (last ?ps) < per_page" by (simp add: per_page_def)
  have h4: "\<forall>k < length ?ps. ?f (Suc k) = JList (?ps ! k)"
    by (simp add: serve_def less_Suc_eq)
  show ?thesis
    using pagination [OF h1 h2 h3 h4] by (simp add: per_page_def)
qed

text \<open>
  The count of the claim as stated, \<open>ceil(total / 100)\<close>, is not the number of requests
  when the total is a multiple of 100: for one full page followed by an empty one the
  loop makes two requests, and \<open>ceil(100 / 100) = 1\<close>.
\<close>

theorem pagination_request_count_counterexample:
  "page_loop (serve [JList (replicate 100 (JInt 0)), JList []]) 1 []
     = Some (Inr (replicate 100 (JInt 0), 2))
   \<and> (length (replicate 100 (JInt 0)) + 99) div 100 \<noteq> (2::nat)"
  by (simp add: page_loop_full page_loop_stop serve_def per_page_def)

section \<open>Traffic of one day\<close>

text \<open>Over well-formed entries the scan returns the counts of the first entry of the day.\<close>

lemma scan_entries_find:
  "\<forall>e \<in> set es. timestamp_of e \<noteq> None \<Longrightarrow>
   scan_entries es t zero_traffic
     = Inr (case find (on_day t) es of None \<Rightarrow> JObj zero_traffic | Some e \<Rightarrow> counts_of e)"
proof (induction es)
  case Nil
  then show ?case by simp
next
  case (Cons e es)
  then obtain kvs ts where e: "e = JObj kvs" "map_of kvs ''timestamp'' = Some (JStr ts)"
    by (cases e) (auto split: option.splits json.splits)
  show ?case
  proof (cases "take 10 ts = t")
    case True
    with e show ?thesis
      by (auto simp add: and_then_def on_day_def counts_of_def zero_traffic_def split: option.splits)
  next
    case False
    with e Cons show ?thesis
      by (simp add: and_then_def on_day_def)
  qed
qed

text \<open>
  Claim C4. A series that is unavailable (\<open>None\<close>, or any falsy value) gives zero counts.
  For a response dictionary the array is read under \<open>views\<close> when that key is present and
  under \<open>clones\<close> otherwise; when its entries carry timestamps, the result is the
  \<open>count\<close> and \<open>uniques\<close> (zero when absent) of the first entry whose timestamp starts with
  the target date, compared on its first ten characters, and zero counts when there is
  none. A dictionary with neither key gives zero counts.
\<close>

theorem traffic_for_date:
  "(\<not> truthy td \<longrightarrow> get_traffic_for_date td t = Inr (JObj zero_traffic))
   \<and> (map_of d (series_key d) = Some (JList es) \<and> (\<forall>e \<in> set es. timestamp_of e \<noteq> None) \<longrightarrow>
        get_traffic_for_date (JObj d) t
          = Inr (case find (on_day t) es of None \<Rightarrow> JObj zero_traffic | Some e \<Rightarrow> counts_of e))
   \<and> (map_of d ''views'' = None \<and> map_of d ''clones'' = None \<longrightarrow>
        get_traffic_for_date (JObj d) t = Inr (JObj zero_traffic))"
proof (intro conjI impI)
  assume "\<not> truthy td"
  then show "get_traffic_for_date td t = Inr (JObj zero_traffic)"
    by (simp add: get_traffic_for_date_def)
next
  assume h: "map_of d (series_key d) = Some (JList es) \<and> (\<forall>e \<in> set es. timestamp_of e \<noteq> None)"
  then have k: "series_key d \<in> set (map fst d)"
    by (metis domI dom_map_of_conv_image_fst set_map)
  then have ne: "d \<noteq> []" by auto
  show "get_traffic_for_date (JObj d) t
          = Inr (case find (on_day t) es of None \<Rightarrow> JObj zero_traffic | Some e \<Rightarrow> counts_of e)"
    using h k ne scan_entries_find [of es t]
    by (simp add: get_traffic_for_date_def and_then_def series_key_def Let_def split: if_splits)
next
  assume h: "map_of d ''views'' = None \<and> map_of d ''clones'' = None"
  then have "''views'' \<notin> set (map fst d)" "''clones'' \<notin> set (map fst d)"
    by (simp_all add: map_of_eq_None_iff)
  then show "get_traffic_for_date (JObj d) t = Inr (JObj zero_traffic)"
    by (simp add: get_traffic_for_date_def and_then_def Let_def)
qed

theorem traffic_for_date_witness:
  "get_traffic_for_date (JObj sample_series) ''2024-01-07''
     = Inr (JObj [(''count'', JInt 5), (''uniques'', JInt 2)])
   \<and> get_traffic_for_date (JObj sample_series) ''2024-02-01'' = Inr (JObj zero_traffic)
   \<and> get_traffic_for_date JNull ''2024-01-07'' = Inr (JObj zero_traffic)"
proof -
  have k: "map_of sample_series (series_key sample_series) = Some (JList sample_entries)
      \<and> (\<forall>e \<in> set sample_entries. timestamp_of e \<noteq> None)"
    by (simp add: sample_series_def series_key_def sample_entries_def)
  have n: "\<not> truthy JNull" by simp
  show ?thesis
    using traffic_for_date [of JNull "''2024-01-07''" sample_series sample_entries] k n
      traffic_for_date [of JNull "''2024-02-01''" sample_series sample_entries]
    by (simp add: sample_entries_def on_day_def counts_of_def)
qed

section \<open>Commit statistics\<close>

text \<open>What one commit adds to the running totals.\<close>

lemma detail_step:
  assumes "detail_ok cd"
  shows "(if truthy cd
       then and_then (py_contains ''stats'' cd) (\<lambda>has_stats.
            if has_stats
            then and_then (py_getitem cd ''stats'') (\<lambda>stats.
                 and_then (py_get stats ''additions'' (JInt 0)) (\<lambda>x.
                 and_then (py_add a x) (\<lambda>a'.
                 and_then (py_getitem cd ''stats'') (\<lambda>stats'.
                 and_then (py_get stats' ''deletions'' (JInt 0)) (\<lambda>y.
                 and_then (py_add d y) (\<lambda>d'. k a' d'))))))
            else k a d)
       else k a d) = k (a + stat ''additions'' cd) (d + stat ''deletions'' cd)"
proof (cases cd)
  case (JObj dk)
  show ?thesis
  proof (cases "map_of dk ''stats''")
    case None
    then have "''stats'' \<notin> set (map fst dk)" by (simp add: map_of_eq_None_iff)
    with None JObj show ?thesis by (simp add: and_then_def stat_def)
  next
    case (Some st)
    then have m: "''stats'' \<in> set (map fst dk)" by (metis domI dom_map_of_conv_image_fst set_map)
    then have ne: "dk \<noteq> []" by auto
    from assms JObj Some obtain sk where st: "st = JObj sk"
      and ia: "int_or_absent sk ''additions''" and id: "int_or_absent sk ''deletions''"
      by (cases st) (auto simp add: detail_ok_def)
    have xa: "and_then (py_get (JObj sk) ''additions'' (JInt 0)) (\<lambda>x. and_then (py_add a x) f)
          = f (a + stat ''additions'' (JObj dk))" for f
      using ia Some st
      by (auto simp add: int_or_absent_def and_then_def stat_def split: option.splits json.splits)
    have xd: "and_then (py_get (JObj sk) ''deletions'' (JInt 0)) (\<lambda>x. and_then (py_add d x) f)
          = f (d + stat ''deletions'' (JObj dk))" for f
      using id Some st
      by (auto simp add: int_or_absent_def and_then_def stat_def split: option.splits json.splits)
    have gi: "py_getitem (JObj dk) ''stats'' = Inr (JObj sk)" using Some st by simp
    show ?thesis unfolding JObj using m ne
      by (simp add: gi and_then_def [of "Inr _"] xa xd del: py_getitem.simps py_get.simps)
  qed
qed (use assms in \<open>auto simp add: detail_ok_def stat_def\<close>)

lemma sum_stats_sums:
  "\<forall>c \<in> set cs. commit_ok detail c \<Longrightarrow>
   sum_stats detail cs a d
     = Inr (a + sum_list (map (commit_stat detail ''additions'') cs),
            d + sum_list (map (commit_stat detail ''deletions'') cs))"
proof (induction cs arbitrary: a d)
  case Nil
  then show ?case by simp
next
  case (Cons c cs)
  then obtain kvs sha where c: "c = JObj kvs" "map_of kvs ''sha'' = Some sha" "detail_ok (detail sha)"
    by (cases c) (auto simp add: commit_ok_def split: option.splits)
  have ih: "sum_stats detail cs a' d'
     = Inr (a' + sum_list (map (commit_stat detail ''additions'') cs),
            d' + sum_list (map (commit_stat detail ''deletions'') cs))" for a' d'
    using Cons by simp
  have cs: "commit_stat detail key c = stat key (detail sha)" for key
    using c(1,2) by (simp add: commit_stat_def)
  have "sum_stats detail (c # cs) a d
      = sum_stats detail cs (a + stat ''additions'' (detail sha)) (d + stat ''deletions'' (detail sha))"
    using c(1,2) by (simp add: and_then_def [of "Inr _"] Let_def detail_step [OF c(3)])
  then show ?case
    by (simp add: ih cs add.assoc)
qed

text \<open>
  Claim C3. When the commit listing returns \<open>commits\<close>, each a dictionary with a \<open>sha\<close>
  whose detail is either \<open>None\<close> (the fetch failed) or a dictionary whose \<open>stats\<close>, if any,
  holds integers, \<open>get_commit_stats\<close> returns the number of commits, the sums of the
  additions and of the deletions over the commits (a commit without detail or without
  \<open>stats\<close> counting zero), and their difference.
\<close>

theorem commit_stats_sums:
  assumes "get_commits a owner repo since until = Some (Inr commits)"
    and "\<forall>c \<in> set commits. commit_ok (\<lambda>sha. a (CommitDetail owner repo sha)) c"
  shows "get_commit_stats a owner repo since until
     = Some (Inr (JObj
         [(''commits'', JInt (int (length commits))),
          (''additions'',
             JInt (sum_list (map (commit_stat (\<lambda>sha. a (CommitDetail owner repo sha)) ''additions'') commits))),
          (''deletions'',
             JInt (sum_list (map (commit_stat (\<lambda>sha. a (CommitDetail owner repo sha)) ''deletions'') commits))),
          (''net_change'',
             JInt (sum_list (map (commit_stat (\<lambda>sha. a (CommitDetail owner repo sha)) ''additions'') commits)
                 - sum_list (map (commit_stat (\<lambda>sha. a (CommitDetail owner repo sha)) ''deletions'') commits)))]))"
  using assms(1) sum_stats_sums [OF assms(2), of 0 0]
  by (simp add: get_commit_stats_def seq_def and_then_def)

theorem commit_stats_sums_witness:
  "get_commit_stats sample_api (JStr ''acme'') (JStr ''a'') ''2024-01-07T00:00:00''
       ''2024-01-07T23:59:59.999999''
     = Some (Inr (JObj [(''commits'', JInt 4), (''additions'', JInt 8), (''deletions'', JInt 3),
                        (''net_change'', JInt 5)]))"
proof -
  have listed: "get_commits sample_api (JStr ''acme'') (JStr ''a'') ''2024-01-07T00:00:00''
       ''2024-01-07T23:59:59.999999'' = Some (Inr sample_commits)"
    by (simp add: get_commits_def seq_def page_loop_short per_page_def sample_commits_def)
  have ok: "\<forall>c \<in> set sample_commits.
      commit_ok (\<lambda>sha. sample_api (CommitDetail (JStr ''acme'') (JStr ''a'') sha)) c"
    by (simp add: sample_commits_def commit_ok_def detail_ok_def sample_stats_def int_or_absent_def)
  show ?thesis
    using commit_stats_sums [OF listed ok]
    by (simp add: sample_commits_def commit_stat_def stat_def sample_stats_def)
qed

section \<open>A run over all repositories\<close>



text \<open>The sample account: the second repository raises, the other two are assembled.\<close>

lemma commits_listed: "get_commits sample_api owner repo since until = Some (Inr sample_commits)"
  by (simp add: get_commits_def seq_def page_loop_short per_page_def sample_commits_def)

lemma sample_commit_stats:
  "get_commit_stats sample_api owner repo since until
     = Some (Inr (JObj [(''commits'', JInt 4), (''additions'', JInt 8), (''deletions'', JInt 3),
                        (''net_change'', JInt 5)]))"
  by (simp add: get_commit_stats_def commits_listed seq_def sample_commits_def and_then_def
      sample_stats_def)

lemma sample_views_for_date:
  "get_traffic_for_date sample_views ''2024-01-07''
     = Inr (JObj [(''count'', JInt 5), (''uniques'', JInt 2)])"
  by (simp add: get_traffic_for_date_def sample_views_def sample_series_def sample_entries_def
      and_then_def zero_traffic_def)

lemma sample_repo_stats:
  "get_repo_stats sample_world t (sample_repo n) ''2024-01-07'' = Some (Inr (sample_snapshot n t))"
  by (simp add: get_repo_stats_def seq_def sample_world_def sample_repo_def sample_commit_stats
      traffic_or_zero_def sample_views_for_date and_then_def zero_traffic_def sample_snapshot_def
      sample_series_def sample_views_def [THEN arg_cong, of truthy])

lemma broken_repo_stats:
  "get_repo_stats sample_world t broken_repo ''2024-01-07'' = Some (Inl KeyError)"
  by (simp add: get_repo_stats_def seq_def broken_repo_def)

lemma repos_listed:
  "get_all_repos (api sample_world) = Some (Inr [sample_repo ''a'', broken_repo, sample_repo ''b''])"
  by (simp add: get_all_repos_def seq_def page_loop_short per_page_def sample_world_def)







section \<open>The merge of the JSON backend\<close>

text \<open>
  For a store file in the documented shape and a non-empty list of snapshots of the date
  \<open>D\<close>, \<open>save_to_json\<close> raises nothing and leaves a store in the documented shape
  whose entries are the earlier entries of other dates followed by the new snapshots.
\<close>

lemma map_of_dict_set: "map_of (dict_set d k v) = (map_of d)(k \<mapsto> v)"
  by (induction d) (auto simp add: fun_eq_iff)

lemma dict_set_keys: "k \<in> fst ` set (dict_set d k v)"
proof -
  have "map_of (dict_set d k v) k = Some v" by (simp add: map_of_dict_set)
  then show ?thesis by (metis domI dom_map_of_conv_image_fst)
qed

lemma py_eq_str: "py_eq d (JStr D) = (d = JStr D)"
  by (cases d) simp_all

lemma entry_dates_ok:
  "list_all entry_ok es \<Longrightarrow> entry_dates es = Inr (map entry_date es)"
proof (induction es)
  case Nil
  then show ?case by simp
next
  case (Cons e es)
  then obtain kvs where "e = JObj kvs" "hashable (entry_date e)"
    by (cases e) (auto simp add: entry_ok_def)
  with Cons show ?case
    by (auto simp add: and_then_def entry_date_def split: option.splits)
qed

lemma remove_date_ok:
  "list_all entry_ok es \<Longrightarrow>
   remove_date (JStr D) es = Inr (filter (\<lambda>e. entry_date e \<noteq> JStr D) es)"
proof (induction es)
  case Nil
  then show ?case by simp
next
  case (Cons e es)
  then obtain kvs where "e = JObj kvs"
    by (cases e) (auto simp add: entry_ok_def)
  with Cons show ?case
    by (auto simp add: and_then_def entry_date_def py_eq_str split: option.splits)
qed

lemma filter_no_member:
  "\<not> (\<exists>d \<in> set (map entry_date es). d = JStr D) \<Longrightarrow> filter (\<lambda>e. entry_date e \<noteq> JStr D) es = es"
  by (induction es) auto

lemma merge_json_ok:
  assumes h: "case map_of h ''historical_data'' of None \<Rightarrow> True
              | Some (JList es) \<Rightarrow> list_all entry_ok es | Some _ \<Rightarrow> False"
    and first: "dated D first"
  shows "\<exists>h'. merge_json (JObj h) data first now = Inr (JObj h')
     \<and> map_of h' ''historical_data''
         = Some (JList (filter (\<lambda>e. entry_date e \<noteq> JStr D) (store_entries (JObj h)) @ data))"
proof -
  from first obtain fk where fk: "first = JObj fk" "map_of fk ''date'' = Some (JStr D)"
    by (cases first) (auto simp add: dated_def)
  show ?thesis
  proof (cases "map_of h ''historical_data''")
    case None
    then have nk: "''historical_data'' \<notin> set (map fst h)" by (simp add: map_of_eq_None_iff)
    show ?thesis using None fk nk
      by (simp add: merge_json_def and_then_def store_entries_def map_of_dict_set)
  next
    case (Some v)
    with h obtain es where v: "v = JList es" and ok: "list_all entry_ok es"
      by (cases v) auto
    have ik: "''historical_data'' \<in> set (map fst h)"
      using Some by (metis domI dom_map_of_conv_image_fst set_map)
    show ?thesis
    proof (cases "\<exists>d \<in> set (map entry_date es). d = JStr D")
      case True
      then show ?thesis using Some v fk ik
        by (simp add: merge_json_def and_then_def store_entries_def map_of_dict_set
            entry_dates_ok [OF ok] remove_date_ok [OF ok] py_eq_str dict_set_keys)
    next
      case False
      then show ?thesis using Some v fk ik filter_no_member [OF False]
        by (simp add: merge_json_def and_then_def store_entries_def map_of_dict_set
            entry_dates_ok [OF ok] py_eq_str)
    qed
  qed
qed

lemma save_to_json_merges:
  assumes "data \<noteq> []" and "\<forall>s \<in> set data. dated D s" and "store_ok f"
  shows "fst (save_to_json data now f) = None
     \<and> file_entries (snd (save_to_json data now f))
         = filter (\<lambda>e. entry_date e \<noteq> JStr D) (file_entries f) @ data
     \<and> store_ok (snd (save_to_json data now f))"
proof -
  from assms(1) obtain first others where d: "data = first # others" by (cases data) auto
  with assms(2) have fd: "dated D first" by simp
  then obtain fk where fk: "first = JObj fk" "map_of fk ''date'' = Some (JStr D)"
    by (cases first) (auto simp add: dated_def)
  then have has: "py_contains ''date'' first = Inr True"
    by (simp) (metis domI dom_map_of_conv_image_fst)
  from assms(3) obtain h where ld: "fst (load_historical_data f) = Inr (JObj h)"
    and hok: "case map_of h ''historical_data'' of None \<Rightarrow> True
              | Some (JList es) \<Rightarrow> list_all entry_ok es | Some _ \<Rightarrow> False"
    and ent: "store_entries (JObj h) = file_entries f"
    by (cases f)
      (auto simp add: store_ok_def load_historical_data_def empty_store_def file_entries_def
        store_entries_def split: json.splits)
  from merge_json_ok [OF hok fd, of data now] obtain h' where
    m: "merge_json (JObj h) data first now = Inr (JObj h')"
    and e: "map_of h' ''historical_data''
         = Some (JList (filter (\<lambda>e. entry_date e \<noteq> JStr D) (store_entries (JObj h)) @ data))"
    by blast
  have res: "save_to_json data now f = (None, Content (JObj h'))"
    using d ld has m by (simp add: save_to_json_def)
  have dok: "list_all entry_ok data"
    using assms(2) by (auto simp add: list_all_iff dated_def entry_ok_def entry_date_def split: json.splits)
  have kok: "list_all entry_ok (filter (\<lambda>e. entry_date e \<noteq> JStr D) (file_entries f))"
    using assms(3)
    by (cases f) (auto simp add: store_ok_def file_entries_def store_entries_def list_all_iff
        split: json.splits option.splits)
  show ?thesis
    using res e ent dok kok by (simp add: file_entries_def store_entries_def store_ok_def)
qed

section \<open>Reading and writing CSV rows\<close>

text \<open>
  A record with one field for every column is read as the dictionary of the columns and
  written back as it was.
\<close>

lemma fieldnames_length: "length fieldnames = 17"
  by (simp add: fieldnames_def)

lemma fieldnames_distinct: "distinct fieldnames"
  by (simp add: fieldnames_def)

lemma column_names: "map fst column_mapping = fieldnames"
  by (simp add: column_mapping_def fieldnames_def)

lemma dict_set_fresh: "k \<notin> fst ` set d \<Longrightarrow> dict_set d k v = d @ [(k, v)]"
  by (induction d) auto

lemma foldl_dict_set:
  "distinct (map fst (acc @ ps)) \<Longrightarrow>
   foldl (\<lambda>d kv. dict_set d (fst kv) (snd kv)) acc ps = acc @ ps"
proof (induction ps arbitrary: acc)
  case Nil
  then show ?case by simp
next
  case (Cons p ps)
  then have "fst p \<notin> fst ` set acc" by auto
  then have "dict_set acc (fst p) (snd p) = acc @ [p]" by (simp add: dict_set_fresh)
  with Cons show ?case by simp
qed

lemma dict_of_pairs_distinct: "distinct (map fst ps) \<Longrightarrow> dict_of_pairs ps = ps"
  using foldl_dict_set [of "[]" ps] by (simp add: dict_of_pairs_def)

lemma reader_row_full:
  assumes "length r = length fieldnames"
  shows "reader_row fieldnames r = zip (map Some fieldnames) (map JStr r)"
proof -
  have "map fst (zip (map Some fieldnames) (map JStr r)) = map Some fieldnames"
    using assms by simp
  then have "distinct (map fst (zip (map Some fieldnames) (map JStr r)))"
    by (simp add: distinct_map fieldnames_distinct)
  then show ?thesis using assms by (simp add: reader_row_def dict_of_pairs_distinct)
qed

lemma lookup_zip:
  assumes "length vs = length ks" and "distinct ks"
  shows "map (\<lambda>k. g (map_of (zip ks vs) k)) ks = map (\<lambda>v. g (Some v)) vs"
proof (rule nth_equalityI)
  show "length (map (\<lambda>k. g (map_of (zip ks vs) k)) ks) = length (map (\<lambda>v. g (Some v)) vs)"
    using assms by simp
next
  fix i assume "i < length (map (\<lambda>k. g (map_of (zip ks vs) k)) ks)"
  then have i: "i < length ks" by simp
  then have "map_of (zip ks vs) (ks ! i) = Some (vs ! i)"
    using assms by (simp add: map_of_zip_nth)
  then show "map (\<lambda>k. g (map_of (zip ks vs) k)) ks ! i = map (\<lambda>v. g (Some v)) vs ! i"
    using i assms by simp
qed

lemma dict_to_list_zip:
  assumes "length vs = length fieldnames"
  shows "dict_to_list repr (zip (map Some fieldnames) vs) = Inr (map (csv_cell repr) vs)"
proof -
  have keys: "\<not> (\<exists>k \<in> set (map fst (zip (map Some fieldnames) vs)). k \<notin> set (map Some fieldnames))"
    using assms by simp
  have "map (\<lambda>k. csv_cell repr (case map_of (zip (map Some fieldnames) vs) k of
                                  None \<Rightarrow> JStr [] | Some v \<Rightarrow> v)) (map Some fieldnames)
        = map (\<lambda>v. csv_cell repr (case Some v of None \<Rightarrow> JStr [] | Some v \<Rightarrow> v)) vs"
    using assms by (intro lookup_zip) (simp_all add: distinct_map fieldnames_distinct)
  then have "map (\<lambda>key. csv_cell repr (case map_of (zip (map Some fieldnames) vs) (Some key) of
                                  None \<Rightarrow> JStr [] | Some v \<Rightarrow> v)) fieldnames
        = map (csv_cell repr) vs"
    by (simp add: comp_def)
  with keys show ?thesis unfolding dict_to_list_def by simp
qed

lemma writerows_all:
  "\<forall>row \<in> set rows. dict_to_list repr row = Inr (c row) \<Longrightarrow>
   writerows repr rows out = (None, out @ map c rows)"
  by (induction rows arbitrary: out) simp_all

lemma row_date_full:
  assumes "length r = length fieldnames"
  shows "row_date (zip (map Some fieldnames) (map JStr r)) = JStr (csv_date r)"
proof -
  from assms obtain c cs where r: "r = c # cs" by (cases r) (auto simp add: fieldnames_def)
  then show ?thesis by (simp add: row_date_def csv_date_def fieldnames_def)
qed

section \<open>The merge of the CSV backend\<close>

text \<open>
  The dictionary literal of \<open>save_to_csv\<close> reads a snapshot at the places of the column
  mapping, so the row written for a complete snapshot is its row under the mapping.
\<close>

lemma at_path_one: "at_path (JObj kvs) [k] = map_of kvs k"
  by (cases "map_of kvs k") simp_all

lemma at_path_two: "map_of kvs a = Some (JObj sub) \<Longrightarrow> at_path (JObj kvs) [a, b] = map_of sub b"
  by (cases "map_of sub b") simp_all

lemma at_path_sub:
  "at_path (JObj kvs) [a, b] \<noteq> None \<Longrightarrow> \<exists>sub. map_of kvs a = Some (JObj sub)"
  by (cases "map_of kvs a") (auto elim: at_path.elims)

lemma getitem_present:
  "map_of kvs k \<noteq> None \<Longrightarrow>
   py_getitem (JObj kvs) k = Inr (case map_of kvs k of None \<Rightarrow> JNull | Some v \<Rightarrow> v)"
  by auto

lemma get_present:
  "map_of kvs k \<noteq> None \<Longrightarrow>
   py_get (JObj kvs) k d = Inr (case map_of kvs k of None \<Rightarrow> JNull | Some v \<Rightarrow> v)"
  by auto

lemma new_row_complete:
  assumes "complete s"
  shows "new_row s = Inr (zip (map Some fieldnames) (snapshot_values s))"
proof -
  from assms obtain kvs where s: "s = JObj kvs"
    by (cases s) (auto simp add: complete_def column_mapping_def)
  from assms s obtain rk where rk: "map_of kvs ''repository'' = Some (JObj rk)"
    using at_path_sub [of kvs "''repository''" "''full_name''"]
    by (auto simp add: complete_def column_mapping_def)
  from assms s obtain tk where tk: "map_of kvs ''traffic'' = Some (JObj tk)"
    using at_path_sub [of kvs "''traffic''" "''views''"]
    by (auto simp add: complete_def column_mapping_def)
  from assms s obtain ck where ck: "map_of kvs ''commits'' = Some (JObj ck)"
    using at_path_sub [of kvs "''commits''" "''commits''"]
    by (auto simp add: complete_def column_mapping_def)
  have all: "list_all (\<lambda>cp. at_path (JObj kvs) (snd cp) \<noteq> None) column_mapping"
    using assms s by (simp add: complete_def)
  have present: "map_of kvs ''date'' \<noteq> None" "map_of kvs ''scraped_at'' \<noteq> None"
    "map_of rk ''full_name'' \<noteq> None" "map_of rk ''private'' \<noteq> None"
    "map_of rk ''language'' \<noteq> None" "map_of rk ''stargazers_count'' \<noteq> None"
    "map_of rk ''forks_count'' \<noteq> None" "map_of rk ''watchers_count'' \<noteq> None"
    "map_of rk ''open_issues_count'' \<noteq> None"
    "map_of tk ''views'' \<noteq> None" "map_of tk ''views_uniques'' \<noteq> None"
    "map_of tk ''clones'' \<noteq> None" "map_of tk ''clones_uniques'' \<noteq> None"
    "map_of ck ''commits'' \<noteq> None" "map_of ck ''additions'' \<noteq> None"
    "map_of ck ''deletions'' \<noteq> None" "map_of ck ''net_change'' \<noteq> None"
    using all
    by (simp_all add: column_mapping_def at_path_one at_path_two [OF rk] at_path_two [OF tk]
        at_path_two [OF ck] del: at_path.simps)
  have top: "py_getitem (JObj kvs) ''repository'' = Inr (JObj rk)"
    "py_getitem (JObj kvs) ''traffic'' = Inr (JObj tk)"
    "py_getitem (JObj kvs) ''commits'' = Inr (JObj ck)"
    using rk tk ck by simp_all
  show ?thesis
    unfolding s new_row_def snapshot_values_def
    by (simp add: top present getitem_present get_present and_then_def column_mapping_def
        at_path_one at_path_two [OF rk] at_path_two [OF tk] at_path_two [OF ck]
        del: at_path.simps py_get.simps py_getitem.simps)
qed

lemma flat_row_values: "complete s \<Longrightarrow> flat_row repr s = map (csv_cell repr) (snapshot_values s)"
  by (auto simp add: flat_row_def snapshot_values_def complete_def list_all_iff)

lemma snapshot_values_length: "length (snapshot_values s) = length fieldnames"
  by (simp add: snapshot_values_def column_mapping_def fieldnames_def)

lemma sequence_all:
  "\<forall>x \<in> set xs. f x = Inr (g x) \<Longrightarrow> sequence (map f xs) = Inr (map g xs)"
  by (induction xs) (simp_all add: and_then_def)

lemma flat_row_date: "dated D s \<Longrightarrow> csv_date (flat_row repr s) = D"
  by (cases s) (simp_all add: dated_def flat_row_def csv_date_def column_mapping_def fieldnames_def)

lemma flat_row_length: "length (flat_row repr s) = length fieldnames"
  by (simp add: flat_row_def column_mapping_def fieldnames_def)

lemma map_values_zip:
  assumes "length ks = length vs"
  shows "map (\<lambda>kv. f (snd kv)) (zip ks vs) = map f vs"
proof -
  have "map (\<lambda>kv. f (snd kv)) (zip ks vs) = map f (map snd (zip ks vs))"
    by (simp add: comp_def)
  also have "\<dots> = map f vs" using assms by (simp only: map_snd_zip)
  finally show ?thesis .
qed

lemma save_to_csv_merges:
  assumes "data \<noteq> []" and "\<forall>s \<in> set data. dated D s \<and> complete s" and "D \<noteq> []"
    and "csv_ok f"
  shows "save_to_csv repr data f
     = (None, Content (fieldnames # (filter (\<lambda>r. csv_date r \<noteq> D) (csv_rows f)
                                      @ map (flat_row repr) data)))"
proof -
  let ?dict = "\<lambda>r. zip (map Some fieldnames) (map JStr r)"
  from assms(1) obtain first others where d: "data = first # others" by (cases data) auto
  with assms(2) have "dated D first" by simp
  then have date: "py_get first ''date'' (JStr []) = Inr (JStr D)"
    by (cases first) (simp_all add: dated_def)
  have full: "\<forall>r \<in> set (csv_rows f). length r = length fieldnames"
    using assms(4)
    by (auto simp add: csv_ok_def csv_rows_def list_all_iff split: disk_file.splits list.splits)
  then have nonblank: "filter (\<lambda>r. r \<noteq> []) (csv_rows f) = csv_rows f"
    by (auto simp add: fieldnames_length intro!: filter_True)
  have existing: "(case f of Content ls \<Rightarrow> DictReader ls | _ \<Rightarrow> []) = map ?dict (csv_rows f)"
  proof (cases f)
    case (Content ls)
    show ?thesis
    proof (cases ls)
      case Nil
      with Content show ?thesis by (simp add: DictReader_def csv_rows_def)
    next
      case (Cons header records)
      with Content assms(4) have hd: "header = fieldnames" and rs: "csv_rows f = records"
        by (simp_all add: csv_ok_def csv_rows_def)
      show ?thesis
        using Content Cons hd rs nonblank full
        by (simp add: DictReader_def reader_row_full)
    qed
  qed (simp_all add: csv_rows_def)
  have "filter (\<lambda>r. row_date (?dict r) \<noteq> JStr D) (csv_rows f)
        = filter (\<lambda>r. csv_date r \<noteq> D) (csv_rows f)"
    using full by (intro filter_cong) (simp_all add: row_date_full)
  then have kept: "filter (\<lambda>row. \<not> py_eq (row_date row) (JStr D)) (map ?dict (csv_rows f))
        = map ?dict (filter (\<lambda>r. csv_date r \<noteq> D) (csv_rows f))"
    by (simp add: filter_map comp_def py_eq_str)
  have new: "sequence (map new_row data)
        = Inr (map (\<lambda>s. zip (map Some fieldnames) (snapshot_values s)) data)"
    using assms(2) by (intro sequence_all) (simp add: new_row_complete)
  define cells where "cells = (\<lambda>row :: csv_row. map (\<lambda>kv. csv_cell repr (snd kv)) row)"
  have cells_zip: "cells (zip (map Some fieldnames) vs) = map (csv_cell repr) vs"
    if "length vs = length fieldnames" for vs
    using that by (simp add: cells_def map_values_zip)
  have cells: "\<forall>row \<in> set (map ?dict (filter (\<lambda>r. csv_date r \<noteq> D) (csv_rows f))
                          @ map (\<lambda>s. zip (map Some fieldnames) (snapshot_values s)) data).
         dict_to_list repr row = Inr (cells row)"
  proof
    fix row
    assume "row \<in> set (map ?dict (filter (\<lambda>r. csv_date r \<noteq> D) (csv_rows f))
                          @ map (\<lambda>s. zip (map Some fieldnames) (snapshot_values s)) data)"
    then obtain vs where row: "row = zip (map Some fieldnames) vs"
      and len: "length vs = length fieldnames"
      using full by (auto simp add: snapshot_values_length)
    show "dict_to_list repr row = Inr (cells row)"
      unfolding row cells_zip [OF len] by (rule dict_to_list_zip [OF len])
  qed
  have old_cells: "cells (?dict r) = r" if "length r = length fieldnames" for r
  proof -
    have "cells (?dict r) = map (csv_cell repr) (map JStr r)"
      using that by (intro cells_zip) simp
    then show ?thesis by (simp add: comp_def)
  qed
  have new_cells: "cells (zip (map Some fieldnames) (snapshot_values s)) = flat_row repr s"
    if "complete s" for s
    using that by (simp add: cells_zip snapshot_values_length flat_row_values)
  have written: "map cells
          (map ?dict (filter (\<lambda>r. csv_date r \<noteq> D) (csv_rows f))
           @ map (\<lambda>s. zip (map Some fieldnames) (snapshot_values s)) data)
        = filter (\<lambda>r. csv_date r \<noteq> D) (csv_rows f) @ map (flat_row repr) data"
  proof -
    have a: "map (cells \<circ> ?dict) (filter (\<lambda>r. csv_date r \<noteq> D) (csv_rows f))
        = filter (\<lambda>r. csv_date r \<noteq> D) (csv_rows f)"
    proof (rule map_idI)
      fix r assume "r \<in> set (filter (\<lambda>r. csv_date r \<noteq> D) (csv_rows f))"
      then have "length r = length fieldnames" using full by simp
      then show "(cells \<circ> ?dict) r = r"
        unfolding o_apply by (rule old_cells)
    qed
    have b: "map (cells \<circ> (\<lambda>s. zip (map Some fieldnames) (snapshot_values s))) data
        = map (flat_row repr) data"
    proof (rule map_cong [OF refl])
      fix s assume "s \<in> set data"
      then have "complete s" using assms(2) by simp
      then show "(cells \<circ> (\<lambda>s. zip (map Some fieldnames) (snapshot_values s))) s = flat_row repr s"
        unfolding o_apply by (rule new_cells)
    qed
    show ?thesis unfolding map_append map_map a b ..
  qed
  have w: "writerows repr
          (map ?dict (filter (\<lambda>r. csv_date r \<noteq> D) (csv_rows f))
           @ map (\<lambda>s. zip (map Some fieldnames) (snapshot_values s)) data) [fieldnames]
        = (None, fieldnames # (filter (\<lambda>r. csv_date r \<noteq> D) (csv_rows f)
                                @ map (flat_row repr) data))"
    using writerows_all [OF cells, of "[fieldnames]", unfolded written] by simp
  have ne: "map ?dict (filter (\<lambda>r. csv_date r \<noteq> D) (csv_rows f))
           @ map (\<lambda>s. zip (map Some fieldnames) (snapshot_values s)) data \<noteq> []"
    using assms(1) by simp
  have "save_to_csv repr data f
      = (case writerows repr
          (map ?dict (filter (\<lambda>r. csv_date r \<noteq> D) (csv_rows f))
           @ map (\<lambda>s. zip (map Some fieldnames) (snapshot_values s)) data) [fieldnames] of
           (err, ls) \<Rightarrow> (err, Content ls))"
    unfolding save_to_csv_def existing d list.case Let_def date [unfolded d]
      new [unfolded d] sum.case
    using assms(3) kept ne [unfolded d] by (simp del: map_append)
  then show ?thesis unfolding w by simp
qed

section \<open>The snapshots of a run\<close>

text \<open>
  Every snapshot that \<open>get_repo_stats\<close> returns carries the target date and a value at
  the place of every column; so does every snapshot of the list \<open>scrape_all_repos\<close>
  returns.
\<close>

lemma seqE:
  assumes "seq m f = Some (Inr y)"
  obtains v where "m = Some (Inr v)" and "f v = Some (Inr y)"
  using assms by (auto simp add: seq_def split: option.splits sum.splits)

lemma sequence_length: "sequence ms = Inr vs \<Longrightarrow> length vs = length ms"
  by (induction ms arbitrary: vs) (auto simp add: and_then_def split: sum.splits)

lemma commit_stats_shape:
  assumes "get_commit_stats a owner repo since until = Some (Inr cs)"
  shows "\<exists>n x y z. cs = JObj [(''commits'', n), (''additions'', x), (''deletions'', y), (''net_change'', z)]"
  using assms unfolding get_commit_stats_def
  by (elim seqE) (auto simp add: and_then_def split: sum.splits)

lemma snapshot_shape:
  assumes "length meta = 8" and "length traffic = 4"
    and "cs = JObj [(''commits'', n), (''additions'', x), (''deletions'', y), (''net_change'', z)]"
    and "s = JObj
         [(''date'', JStr d),
          (''repository'', JObj (zip
              [''name'', ''full_name'', ''owner'', ''private'', ''description'', ''url'',
               ''language'', ''stargazers_count'', ''forks_count'', ''watchers_count'',
               ''open_issues_count'']
              ([repo_name, full_name, owner] @ meta))),
          (''traffic'', JObj (zip
              [''views'', ''views_uniques'', ''clones'', ''clones_uniques''] traffic)),
          (''commits'', cs),
          (''scraped_at'', JStr t)]"
  shows "dated d s \<and> complete s"
proof -
  from assms(1) obtain m1 m2 m3 m4 m5 m6 m7 m8 where
    m: "meta = [m1, m2, m3, m4, m5, m6, m7, m8]"
    by (auto simp add: length_Suc_conv eval_nat_numeral)
  from assms(2) obtain t1 t2 t3 t4 where
    tr: "traffic = [t1, t2, t3, t4]"
    by (auto simp add: length_Suc_conv eval_nat_numeral)
  show ?thesis
    unfolding assms(4) assms(3) m tr by (simp add: dated_def complete_def column_mapping_def)
qed

lemma sequence_eight:
  "sequence [m1, m2, m3, m4, m5, m6, m7, m8] = Inr vs \<Longrightarrow> length vs = 8"
  by (drule sequence_length) simp

lemma sequence_four: "sequence [m1, m2, m3, m4] = Inr vs \<Longrightarrow> length vs = 4"
  by (drule sequence_length) simp

lemma get_repo_stats_shape:
  assumes "get_repo_stats w t repo d = Some (Inr s)"
  shows "dated d s \<and> complete s"
  using assms unfolding get_repo_stats_def Let_def
  apply (elim seqE)
  apply (simp only: option.inject sum.inject)
  apply (drule sequence_eight)
  apply (drule sequence_four)
  apply (drule commit_stats_shape)
  apply (elim exE)
  apply (rule snapshot_shape)
     prefer 4
     apply (erule sym)
    apply assumption
   apply assumption
  apply assumption
  done

lemma scrape_loop_shape:
  "scrape_loop w d repos i acc = Some (Inr data) \<Longrightarrow>
   \<forall>s \<in> set acc. dated d s \<and> complete s \<Longrightarrow> \<forall>s \<in> set data. dated d s \<and> complete s"
proof (induction repos arbitrary: i acc)
  case Nil
  then show ?case by simp
next
  case (Cons r rs)
  show ?case
  proof (cases "get_repo_stats w (clock w i) r d")
    case None
    with Cons.prems(1) show ?thesis by simp
  next
    case (Some res)
    show ?thesis
    proof (cases res)
      case (Inl e)
      with Some Cons.prems(1) have "scrape_loop w d rs (Suc i) acc = Some (Inr data)"
        by (cases "py_getitem r ''full_name''") simp_all
      then show ?thesis using Cons.prems(2) by (rule Cons.IH)
    next
      case (Inr stats)
      with Some have "get_repo_stats w (clock w i) r d = Some (Inr stats)" by simp
      then have "dated d stats \<and> complete stats" by (rule get_repo_stats_shape)
      with Cons.prems(2) have all: "\<forall>s \<in> set (acc @ [stats]). dated d s \<and> complete s"
        by simp
      from Inr Some Cons.prems(1)
      have "scrape_loop w d rs (Suc i) (acc @ [stats]) = Some (Inr data)" by simp
      then show ?thesis using all by (rule Cons.IH)
    qed
  qed
qed

lemma run_snapshots:
  assumes "scrape_all_repos w d = Some (Inr data)"
  shows "\<forall>s \<in> set data. dated d s \<and> complete s"
proof -
  from assms obtain repos where "scrape_loop w d repos 0 [] = Some (Inr data)"
    unfolding scrape_all_repos_def by (elim seqE)
  then show ?thesis by (rule scrape_loop_shape) simp
qed

section \<open>The merge invariant\<close>

lemma dated_entry_date: "dated D s \<Longrightarrow> entry_date s = JStr D"
  by (cases s) (simp_all add: dated_def entry_date_def)

lemma filter_replaced:
  assumes "\<forall>x \<in> set new. P x"
  shows "filter P (filter (\<lambda>x. \<not> P x) old @ new) = new"
    and "filter (\<lambda>x. \<not> P x) (filter (\<lambda>x. \<not> P x) old @ new) = filter (\<lambda>x. \<not> P x) old"
proof -
  have a: "filter P (filter (\<lambda>x. \<not> P x) old) = []" by (induction old) simp_all
  have b: "filter P new = new" using assms by (simp add: filter_id_conv)
  have c: "filter (\<lambda>x. \<not> P x) new = []" using assms by (simp add: filter_empty_conv)
  show "filter P (filter (\<lambda>x. \<not> P x) old @ new) = new" by (simp add: a b)
  show "filter (\<lambda>x. \<not> P x) (filter (\<lambda>x. \<not> P x) old @ new) = filter (\<lambda>x. \<not> P x) old"
    by (simp add: c)
qed

lemma csv_ok_merged:
  assumes "csv_ok f"
  shows "csv_ok (Content (fieldnames # (filter P (csv_rows f) @ map (flat_row repr) data)))"
proof -
  have "\<forall>r \<in> set (csv_rows f). length r = length fieldnames"
    using assms
    by (auto simp add: csv_ok_def csv_rows_def list_all_iff split: disk_file.splits list.splits)
  then show ?thesis by (auto simp add: csv_ok_def list_all_iff flat_row_length)
qed

lemma csv_rows_content: "csv_rows (Content (header # records)) = records"
  by (simp add: csv_rows_def)


text \<open>The sample store and the two sample snapshots of 2024-01-07.\<close>

lemma sample_run:
  "scrape_all_repos sample_world ''2024-01-07''
     = Some (Inr [sample_snapshot ''a'' ''2024-01-14T09:00:00'',
                  sample_snapshot ''b'' ''2024-01-14T09:00:00''])"
proof -
  have c: "clock sample_world i = ''2024-01-14T09:00:00''" for i
    by (simp add: sample_world_def)
  have n: "py_getitem broken_repo ''full_name'' = Inr (JStr ''acme/x'')"
    by (simp add: broken_repo_def)
  show ?thesis
    by (simp add: scrape_all_repos_def seq_def repos_listed sample_repo_stats broken_repo_stats
        n c del: py_getitem.simps)
qed

lemma sample_snapshots_dated:
  "\<forall>s \<in> set [sample_snapshot ''a'' t, sample_snapshot ''b'' t]. dated ''2024-01-07'' s"
  by (simp add: dated_def sample_snapshot_def)

lemma sample_snapshots_complete:
  "\<forall>s \<in> set [sample_snapshot ''a'' t, sample_snapshot ''b'' t]. complete s"
  by (simp add: complete_def column_mapping_def sample_snapshot_def)

lemma sample_store_ok: "store_ok sample_store"
  by (simp add: store_ok_def sample_store_def entry_ok_def sample_entry_def entry_date_def)

lemma sample_csv_ok: "csv_ok sample_csv"
  by (simp add: csv_ok_def sample_csv_def sample_line_def fieldnames_def)

lemma sample_store_entries:
  "file_entries sample_store = [sample_entry ''2024-01-06'', sample_entry ''2024-01-07'']"
  by (simp add: file_entries_def store_entries_def sample_store_def)

lemma sample_entry_date: "entry_date (sample_entry d) = JStr d"
  by (simp add: entry_date_def sample_entry_def)

lemma sample_csv_rows:
  "csv_rows sample_csv = [sample_line ''2024-01-06'', sample_line ''2024-01-07'']"
  by (simp add: csv_rows_def sample_csv_def)

lemma sample_line_date: "csv_date (sample_line d) = d"
  by (simp add: csv_date_def sample_line_def fieldnames_def)

lemma sample_flat_row: "flat_row repr (sample_snapshot n t) = sample_row n t"
  by (simp add: flat_row_def column_mapping_def sample_snapshot_def sample_row_def str_int_def)


text \<open>
  Claim C1. Let a non-empty list \<open>data\<close> of snapshots that share the date \<open>D\<close> be merged
  into an existing store in the documented shape. JSON backend: \<open>save_to_json\<close> raises
  nothing, and the entries of the store afterwards are the earlier entries of the other
  dates, unchanged and in their order, followed by the new snapshots in their order; the
  entries of the date \<open>D\<close> are exactly the new snapshots. CSV backend: the same holds for
  the rows of the file and the rows of the new snapshots under the column mapping, when
  the snapshots have a value at the place of every column and \<open>D\<close> is not the empty text
  (line 343 removes earlier rows only \<open>if target_date\<close>).
\<close>

theorem merge_replaces_date:
  assumes "data \<noteq> []" and "\<forall>s \<in> set data. dated D s" and "store_ok jf" and "csv_ok cf"
  shows "fst (save_to_json data now jf) = None
     \<and> file_entries (snd (save_to_json data now jf))
         = filter (\<lambda>e. entry_date e \<noteq> JStr D) (file_entries jf) @ data
     \<and> filter (\<lambda>e. entry_date e = JStr D) (file_entries (snd (save_to_json data now jf))) = data
     \<and> filter (\<lambda>e. entry_date e \<noteq> JStr D) (file_entries (snd (save_to_json data now jf)))
         = filter (\<lambda>e. entry_date e \<noteq> JStr D) (file_entries jf)
     \<and> (D \<noteq> [] \<and> (\<forall>s \<in> set data. complete s) \<longrightarrow>
          fst (save_to_csv repr data cf) = None
        \<and> csv_rows (snd (save_to_csv repr data cf))
            = filter (\<lambda>r. csv_date r \<noteq> D) (csv_rows cf) @ map (flat_row repr) data
        \<and> filter (\<lambda>r. csv_date r = D) (csv_rows (snd (save_to_csv repr data cf)))
            = map (flat_row repr) data
        \<and> filter (\<lambda>r. csv_date r \<noteq> D) (csv_rows (snd (save_to_csv repr data cf)))
            = filter (\<lambda>r. csv_date r \<noteq> D) (csv_rows cf))"
proof -
  note j = save_to_json_merges [OF assms(1) assms(2) assms(3), of now]
  have jd: "\<forall>e \<in> set data. entry_date e = JStr D"
    using assms(2) by (simp add: dated_entry_date)
  have json: "fst (save_to_json data now jf) = None
     \<and> file_entries (snd (save_to_json data now jf))
         = filter (\<lambda>e. entry_date e \<noteq> JStr D) (file_entries jf) @ data
     \<and> filter (\<lambda>e. entry_date e = JStr D) (file_entries (snd (save_to_json data now jf))) = data
     \<and> filter (\<lambda>e. entry_date e \<noteq> JStr D) (file_entries (snd (save_to_json data now jf)))
         = filter (\<lambda>e. entry_date e \<noteq> JStr D) (file_entries jf)"
    using j filter_replaced [of data "\<lambda>e. entry_date e = JStr D" "file_entries jf", OF jd]
    by simp
  have csv: "fst (save_to_csv repr data cf) = None
        \<and> csv_rows (snd (save_to_csv repr data cf))
            = filter (\<lambda>r. csv_date r \<noteq> D) (csv_rows cf) @ map (flat_row repr) data
        \<and> filter (\<lambda>r. csv_date r = D) (csv_rows (snd (save_to_csv repr data cf)))
            = map (flat_row repr) data
        \<and> filter (\<lambda>r. csv_date r \<noteq> D) (csv_rows (snd (save_to_csv repr data cf)))
            = filter (\<lambda>r. csv_date r \<noteq> D) (csv_rows cf)"
    if d: "D \<noteq> []" and c: "\<forall>s \<in> set data. complete s"
  proof -
    from assms(2) c have dc: "\<forall>s \<in> set data. dated D s \<and> complete s" by simp
    have cd: "\<forall>r \<in> set (map (flat_row repr) data). csv_date r = D"
      using assms(2) by (simp add: flat_row_date)
    show ?thesis
      unfolding save_to_csv_merges [OF assms(1) dc d assms(4)] snd_conv fst_conv csv_rows_content
      using filter_replaced [of "map (flat_row repr) data" "\<lambda>r. csv_date r = D" "csv_rows cf", OF cd]
      by simp
  qed
  from json csv show ?thesis by blast
qed


theorem merge_replaces_date_witness:
  "fst (save_to_json [sample_snapshot ''a'' ''t'', sample_snapshot ''b'' ''t''] ''now''
          sample_store) = None
   \<and> file_entries (snd (save_to_json [sample_snapshot ''a'' ''t'', sample_snapshot ''b'' ''t'']
                          ''now'' sample_store))
       = [sample_entry ''2024-01-06'', sample_snapshot ''a'' ''t'', sample_snapshot ''b'' ''t'']
   \<and> fst (save_to_csv (\<lambda>v. []) [sample_snapshot ''a'' ''t'', sample_snapshot ''b'' ''t'']
            sample_csv) = None
   \<and> csv_rows (snd (save_to_csv (\<lambda>v. []) [sample_snapshot ''a'' ''t'', sample_snapshot ''b'' ''t'']
                       sample_csv))
       = [sample_line ''2024-01-06'', sample_row ''a'' ''t'', sample_row ''b'' ''t'']"
  using merge_replaces_date [where now = "''now''" and repr = "\<lambda>v. []",
      OF _ sample_snapshots_dated sample_store_ok sample_csv_ok, of "''t''"]
    sample_snapshots_complete [of "''t''"]
  by (simp add: sample_store_entries sample_entry_date sample_csv_rows sample_line_date
      sample_flat_row)


section \<open>Merging twice\<close>

text \<open>
  Claim C5. Merging the same non-empty list of snapshots of the date \<open>D\<close> a second time,
  at whatever later moment, raises nothing and leaves the entries of the JSON store as
  the first merge left them, those of \<open>D\<close> being the snapshots once; under the
  conditions of the CSV backend (complete snapshots, \<open>D\<close> not empty) the second
  \<open>save_to_csv\<close> returns the file of the first, the rows of \<open>D\<close> being the rows of the
  snapshots once.
\<close>

theorem merge_twice:
  assumes "data \<noteq> []" and "\<forall>s \<in> set data. dated D s" and "store_ok jf" and "csv_ok cf"
  shows "fst (save_to_json data later (snd (save_to_json data now jf))) = None
     \<and> file_entries (snd (save_to_json data later (snd (save_to_json data now jf))))
         = file_entries (snd (save_to_json data now jf))
     \<and> filter (\<lambda>e. entry_date e = JStr D)
          (file_entries (snd (save_to_json data later (snd (save_to_json data now jf))))) = data
     \<and> (D \<noteq> [] \<and> (\<forall>s \<in> set data. complete s) \<longrightarrow>
          save_to_csv repr data (snd (save_to_csv repr data cf)) = save_to_csv repr data cf
        \<and> filter (\<lambda>r. csv_date r = D)
             (csv_rows (snd (save_to_csv repr data (snd (save_to_csv repr data cf)))))
            = map (flat_row repr) data)"
proof -
  note once = save_to_json_merges [OF assms(1) assms(2) assms(3), of now]
  from once have ok: "store_ok (snd (save_to_json data now jf))" by simp
  note twice = save_to_json_merges [OF assms(1) assms(2) ok, of later]
  have jd: "\<forall>e \<in> set data. entry_date e = JStr D"
    using assms(2) by (simp add: dated_entry_date)
  note split = filter_replaced [of data "\<lambda>e. entry_date e = JStr D" "file_entries jf", OF jd]
  have json: "fst (save_to_json data later (snd (save_to_json data now jf))) = None
     \<and> file_entries (snd (save_to_json data later (snd (save_to_json data now jf))))
         = file_entries (snd (save_to_json data now jf))
     \<and> filter (\<lambda>e. entry_date e = JStr D)
          (file_entries (snd (save_to_json data later (snd (save_to_json data now jf))))) = data"
    using once twice split by simp
  have csv: "save_to_csv repr data (snd (save_to_csv repr data cf)) = save_to_csv repr data cf
        \<and> filter (\<lambda>r. csv_date r = D)
             (csv_rows (snd (save_to_csv repr data (snd (save_to_csv repr data cf)))))
            = map (flat_row repr) data"
    if d: "D \<noteq> []" and c: "\<forall>s \<in> set data. complete s"
  proof -
    from assms(2) c have dc: "\<forall>s \<in> set data. dated D s \<and> complete s" by simp
    have cd: "\<forall>r \<in> set (map (flat_row repr) data). csv_date r = D"
      using assms(2) by (simp add: flat_row_date)
    note split = filter_replaced [of "map (flat_row repr) data" "\<lambda>r. csv_date r = D" "csv_rows cf", OF cd]
    note first = save_to_csv_merges [OF assms(1) dc d assms(4), of repr]
    note ok = csv_ok_merged [OF assms(4), of "\<lambda>r. csv_date r \<noteq> D" repr data]
    note second = save_to_csv_merges [OF assms(1) dc d ok, of repr]
    show ?thesis
      unfolding first snd_conv second csv_rows_content using split by simp
  qed
  from json csv show ?thesis by blast
qed


theorem merge_twice_witness:
  "file_entries (snd (save_to_json [sample_snapshot ''a'' ''t'', sample_snapshot ''b'' ''t'']
       ''later''
       (snd (save_to_json [sample_snapshot ''a'' ''t'', sample_snapshot ''b'' ''t''] ''now''
               sample_store))))
     = file_entries (snd (save_to_json [sample_snapshot ''a'' ''t'', sample_snapshot ''b'' ''t'']
                            ''now'' sample_store))
   \<and> filter (\<lambda>e. entry_date e = JStr ''2024-01-07'')
        (file_entries (snd (save_to_json [sample_snapshot ''a'' ''t'', sample_snapshot ''b'' ''t'']
           ''later''
           (snd (save_to_json [sample_snapshot ''a'' ''t'', sample_snapshot ''b'' ''t''] ''now''
                   sample_store)))))
       = [sample_snapshot ''a'' ''t'', sample_snapshot ''b'' ''t'']
   \<and> save_to_csv (\<lambda>v. []) [sample_snapshot ''a'' ''t'', sample_snapshot ''b'' ''t'']
        (snd (save_to_csv (\<lambda>v. []) [sample_snapshot ''a'' ''t'', sample_snapshot ''b'' ''t'']
                sample_csv))
       = save_to_csv (\<lambda>v. []) [sample_snapshot ''a'' ''t'', sample_snapshot ''b'' ''t'']
           sample_csv
   \<and> filter (\<lambda>r. csv_date r = ''2024-01-07'')
        (csv_rows (snd (save_to_csv (\<lambda>v. []) [sample_snapshot ''a'' ''t'', sample_snapshot ''b'' ''t'']
           (snd (save_to_csv (\<lambda>v. []) [sample_snapshot ''a'' ''t'', sample_snapshot ''b'' ''t'']
                   sample_csv)))))
       = [sample_row ''a'' ''t'', sample_row ''b'' ''t'']"
proof -
  have dc: "\<forall>s \<in> set [sample_snapshot ''a'' ''t'', sample_snapshot ''b'' ''t''].
              dated ''2024-01-07'' s \<and> complete s"
    using sample_snapshots_dated [of "''t''"] sample_snapshots_complete [of "''t''"] by simp
  have ne: "[sample_snapshot ''a'' ''t'', sample_snapshot ''b'' ''t''] \<noteq> []" by simp
  note j = save_to_json_merges [OF ne sample_snapshots_dated sample_store_ok, of "''now''"]
  note c = save_to_csv_merges [OF ne dc _ sample_csv_ok, of "\<lambda>v. []"]
  from j have entries: "filter (\<lambda>e. entry_date e = JStr ''2024-01-07'')
        (file_entries (snd (save_to_json [sample_snapshot ''a'' ''t'', sample_snapshot ''b'' ''t'']
           ''now'' sample_store)))
      = [sample_snapshot ''a'' ''t'', sample_snapshot ''b'' ''t'']"
    by (simp add: sample_store_entries sample_entry_date)
       (simp add: entry_date_def sample_snapshot_def)
  from c have rows: "filter (\<lambda>r. csv_date r = ''2024-01-07'')
        (csv_rows (snd (save_to_csv (\<lambda>v. []) [sample_snapshot ''a'' ''t'', sample_snapshot ''b'' ''t'']
           sample_csv)))
      = [sample_row ''a'' ''t'', sample_row ''b'' ''t'']"
    by (simp add: csv_rows_content sample_csv_rows sample_line_date sample_flat_row)
       (simp add: csv_date_def sample_row_def fieldnames_def)
  show ?thesis
    using merge_twice [where later = "''later''" and now = "''now''" and repr = "\<lambda>v. []",
        OF ne sample_snapshots_dated sample_store_ok sample_csv_ok]
      sample_snapshots_complete [of "''t''"] entries rows
    by simp
qed


section \<open>Agreement of the two backends\<close>

text \<open>
  Claim C6. Let \<open>data\<close> be the non-empty snapshot list a run for the date \<open>D\<close> returns
  (\<open>D\<close> not the empty text), persisted to a JSON store and a CSV file in their documented
  shapes. Then both calls raise nothing, and the CSV rows of the date \<open>D\<close> are, in the
  same order, the rows under the documented column mapping of the \<open>historical_data\<close>
  entries of the date \<open>D\<close>: one row for every entry, the text of the entry's value in
  every column.
\<close>

theorem backends_agree:
  assumes "scrape_all_repos w D = Some (Inr data)" and "data \<noteq> []" and "D \<noteq> []"
    and "store_ok jf" and "csv_ok cf"
  shows "fst (save_to_json data now jf) = None
     \<and> fst (save_to_csv repr data cf) = None
     \<and> filter (\<lambda>r. csv_date r = D) (csv_rows (snd (save_to_csv repr data cf)))
         = map (flat_row repr)
             (filter (\<lambda>e. entry_date e = JStr D) (file_entries (snd (save_to_json data now jf))))"
proof -
  note dc = run_snapshots [OF assms(1)]
  then have dt: "\<forall>s \<in> set data. dated D s" by simp
  note j = save_to_json_merges [OF assms(2) dt assms(4), of now]
  have jd: "\<forall>e \<in> set data. entry_date e = JStr D"
    using dt by (simp add: dated_entry_date)
  have cd: "\<forall>r \<in> set (map (flat_row repr) data). csv_date r = D"
    using dt by (simp add: flat_row_date)
  show ?thesis
    unfolding save_to_csv_merges [OF assms(2) dc assms(3) assms(5)] snd_conv fst_conv
      csv_rows_content
    using j filter_replaced(1) [of data "\<lambda>e. entry_date e = JStr D" "file_entries jf", OF jd]
      filter_replaced(1) [of "map (flat_row repr) data" "\<lambda>r. csv_date r = D" "csv_rows cf", OF cd]
    by simp
qed

theorem backends_agree_witness:
  "scrape_all_repos sample_world ''2024-01-07''
     = Some (Inr [sample_snapshot ''a'' ''2024-01-14T09:00:00'',
                  sample_snapshot ''b'' ''2024-01-14T09:00:00''])
   \<and> filter (\<lambda>r. csv_date r = ''2024-01-07'')
        (csv_rows (snd (save_to_csv (\<lambda>v. [])
           [sample_snapshot ''a'' ''2024-01-14T09:00:00'',
            sample_snapshot ''b'' ''2024-01-14T09:00:00''] sample_csv)))
       = map (flat_row (\<lambda>v. []))
           (filter (\<lambda>e. entry_date e = JStr ''2024-01-07'')
             (file_entries (snd (save_to_json
                [sample_snapshot ''a'' ''2024-01-14T09:00:00'',
                 sample_snapshot ''b'' ''2024-01-14T09:00:00''] ''now'' sample_store))))
   \<and> filter (\<lambda>r. csv_date r = ''2024-01-07'')
        (csv_rows (snd (save_to_csv (\<lambda>v. [])
           [sample_snapshot ''a'' ''2024-01-14T09:00:00'',
            sample_snapshot ''b'' ''2024-01-14T09:00:00''] sample_csv)))
       = [sample_row ''a'' ''2024-01-14T09:00:00'', sample_row ''b'' ''2024-01-14T09:00:00'']"
proof -
  note j = save_to_json_merges [OF _ sample_snapshots_dated sample_store_ok,
      of "''2024-01-14T09:00:00''" "''now''"]
  from j have entries: "filter (\<lambda>e. entry_date e = JStr ''2024-01-07'')
             (file_entries (snd (save_to_json
                [sample_snapshot ''a'' ''2024-01-14T09:00:00'',
                 sample_snapshot ''b'' ''2024-01-14T09:00:00''] ''now'' sample_store)))
      = [sample_snapshot ''a'' ''2024-01-14T09:00:00'',
         sample_snapshot ''b'' ''2024-01-14T09:00:00'']"
    by (simp add: sample_store_entries sample_entry_date)
       (simp add: entry_date_def sample_snapshot_def)
  show ?thesis
    using backends_agree [where repr = "\<lambda>v. []" and now = "''now''",
        OF sample_run _ _ sample_store_ok sample_csv_ok]
    unfolding entries by (simp add: sample_run sample_flat_row)
qed

end
